theory Spec2Isabelle
  imports Complex_Main "HOL-Library.Char_ord" "HOL-Library.List_Lexorder" "HOL-Library.Multiset"
begin

text \<open>
  A model of \<^verbatim>\<open>run_idt.py\<close>, which turns the trajectory descriptors of each video of
  a directory into Fisher vectors, one table per descriptor channel. The functions of
  the module are translated one by one; OpenCV, the trajectory extractor and
  scikit-learn are parameters. The definitions come first, the properties after them.
\<close>

section \<open>Exceptions\<close>

text \<open>
  The program \<^verbatim>\<open>run_idt.py\<close> has no \<^verbatim>\<open>try\<close> block: an exception raised anywhere
  leaves the function that raised it and every caller. A computation that may raise is
  a value of \<open>error + 'a\<close>, with \<open>Inl\<close> for the exception.
\<close>

datatype error = IndexError | ValueError | TypeError | UnboundLocalError

fun bind_err :: "'e + 'a \<Rightarrow> ('a \<Rightarrow> 'e + 'b) \<Rightarrow> 'e + 'b" where
  "bind_err (Inl e) f = Inl e"
| "bind_err (Inr x) f = f x"

text \<open>A list comprehension whose items may raise: the first exception ends it.\<close>

fun map_err :: "('a \<Rightarrow> error + 'b) \<Rightarrow> 'a list \<Rightarrow> error + 'b list" where
  "map_err f [] = Inr []"
| "map_err f (x # xs) = bind_err (f x) (\<lambda>y. bind_err (map_err f xs) (\<lambda>ys. Inr (y # ys)))"

section \<open>Arrays\<close>

text \<open>
  A numpy array of floating-point numbers, seen as the nesting that indexing and
  iteration expose: a 0-dimensional array is a \<open>Scalar\<close>, an array of one dimension
  more is the list of its items along the first axis. Numbers are real numbers:
  rounding is not part of the model.
\<close>

datatype nd = Scalar real | Arr "nd list"

fun shape :: "nd \<Rightarrow> nat list" where
  "shape (Scalar v) = []"
| "shape (Arr []) = [0]"
| "shape (Arr (x # xs)) = Suc (length xs) # shape x"

definition ndim :: "nd \<Rightarrow> nat" where
  "ndim a = length (shape a)"

text \<open>numpy arrays are rectangular: all items of an array have one shape.\<close>

fun rect :: "nd \<Rightarrow> bool" where
  "rect (Scalar v) = True"
| "rect (Arr xs) = (list_all rect xs \<and> list_all (\<lambda>x. shape x = shape (hd xs)) xs)"

text \<open>The elements in C (row-major) order, and \<^verbatim>\<open>a.flatten()\<close>, the 1-dimensional
  array of them.\<close>

fun ravel :: "nd \<Rightarrow> real list" where
  "ravel (Scalar v) = [v]"
| "ravel (Arr xs) = concat (map ravel xs)"

definition flatten :: "nd \<Rightarrow> nd" where
  "flatten a = Arr (map Scalar (ravel a))"

text \<open>\<^verbatim>\<open>np.array([...])\<close> on a list of arrays stacks them along a new first axis and
  raises ValueError when their shapes differ; \<^verbatim>\<open>np.array([])\<close> has shape \<open>(0,)\<close>.\<close>

definition np_array :: "nd list \<Rightarrow> error + nd" where
  "np_array xs =
     (if list_all (\<lambda>x. shape x = shape (hd xs)) xs then Inr (Arr xs) else Inl ValueError)"

text \<open>\<^verbatim>\<open>a[i]\<close> for \<open>i \<ge> 0\<close>, and the items that \<^verbatim>\<open>for d in a\<close> visits.\<close>

fun getitem :: "nd \<Rightarrow> nat \<Rightarrow> error + nd" where
  "getitem (Scalar v) i = Inl IndexError"
| "getitem (Arr xs) i = (if i < length xs then Inr (xs ! i) else Inl IndexError)"

fun items :: "nd \<Rightarrow> error + nd list" where
  "items (Scalar v) = Inl TypeError"
| "items (Arr xs) = Inr xs"

text \<open>\<^verbatim>\<open>a.shape[i]\<close>: indexing the shape tuple.\<close>

definition shape_at :: "nd \<Rightarrow> nat \<Rightarrow> error + nat" where
  "shape_at a i = (if i < ndim a then Inr (shape a ! i) else Inl IndexError)"

text \<open>
  The first block of \<^verbatim>\<open>fisher_descriptor\<close>:
  \<^verbatim>\<open>
    if descriptor.ndim > 2:
        feature_dim = np.prod(descriptor[0].shape)
        descriptor = np.array([d.flatten() for d in descriptor])
  \<close>
\<close>

definition flatten_rows :: "nd \<Rightarrow> error + nd" where
  "flatten_rows descriptor =
     (if ndim descriptor > 2 then
        bind_err (getitem descriptor 0) (\<lambda>d0.
          let feature_dim = prod_list (shape d0) in
          bind_err (items descriptor) (\<lambda>ds. np_array (map flatten ds)))
      else Inr descriptor)"

text \<open>
  The inverse that the specification asks to exist: \<open>reshape sh xs\<close> rebuilds the array
  of shape \<open>sh\<close> whose elements in C order are \<open>xs\<close> (\<^verbatim>\<open>np.reshape\<close>; it is read only
  where \<open>length xs = prod_list sh\<close>).
\<close>

fun chunks :: "nat \<Rightarrow> nat \<Rightarrow> 'a list \<Rightarrow> 'a list list" where
  "chunks 0 m xs = []"
| "chunks (Suc n) m xs = take m xs # chunks n m (drop m xs)"

fun reshape :: "nat list \<Rightarrow> real list \<Rightarrow> nd" where
  "reshape [] xs = Scalar (hd xs)"
| "reshape (n # sh) xs = Arr (map (reshape sh) (chunks n (prod_list sh) xs))"

section \<open>The numerical library\<close>

text \<open>
  A matrix (2-dimensional array) is the list of its rows. The fitted mixture is the
  object that \<^verbatim>\<open>GaussianMixture(...).fit\<close> returns, of which the program reads
  \<^verbatim>\<open>weights_\<close>, \<^verbatim>\<open>means_\<close> and \<^verbatim>\<open>covariances_\<close>.
\<close>

type_synonym matrix = "real list list"

record gmm =
  weights :: "real list"
  means :: matrix
  covariances :: matrix

text \<open>
  scikit-learn is not part of the program; its three entry points that the program
  calls are parameters, each of which may raise:
  \<^item> \<open>pca_fit_transform c X\<close> is \<^verbatim>\<open>PCA(n_components=c).fit(X).transform(X)\<close>,
  \<^item> \<open>gmm_fit k X\<close> is \<^verbatim>\<open>GMM(n_components=k, covariance_type='diag').fit(X)\<close>,
  \<^item> \<open>predict_proba g X\<close> is \<^verbatim>\<open>g.predict_proba(X)\<close>.
\<close>

record sklearn =
  pca_fit_transform :: "nat \<Rightarrow> matrix \<Rightarrow> error + matrix"
  gmm_fit :: "nat \<Rightarrow> matrix \<Rightarrow> error + gmm"
  predict_proba :: "gmm \<Rightarrow> matrix \<Rightarrow> error + matrix"

text \<open>\<open>has_shape n m A\<close>: the matrix \<open>A\<close> has \<open>n\<close> rows and \<open>m\<close> columns.\<close>

definition has_shape :: "nat \<Rightarrow> nat \<Rightarrow> matrix \<Rightarrow> bool" where
  "has_shape n m A = (length A = n \<and> list_all (\<lambda>row. length row = m) A)"

text \<open>The numpy operations of \<^verbatim>\<open>fisher_vector\<close>, on matrices with at least one row.\<close>

definition np_sum0 :: "matrix \<Rightarrow> real list" where
  \<comment> \<open>\<^verbatim>\<open>np.sum(A, 0)\<close>: the sums of the columns\<close>
  "np_sum0 A = map sum_list (transpose A)"

definition np_dot :: "matrix \<Rightarrow> matrix \<Rightarrow> matrix" where
  \<comment> \<open>\<^verbatim>\<open>np.dot(A, B)\<close>: the matrix product\<close>
  "np_dot A B = map (\<lambda>a. map (\<lambda>b. sum_list (map2 (*) a b)) (transpose B)) A"

definition np_square :: "matrix \<Rightarrow> matrix" where
  \<comment> \<open>\<^verbatim>\<open>A ** 2\<close>\<close>
  "np_square A = map (map (\<lambda>x. x ^ 2)) A"

definition mat_div :: "matrix \<Rightarrow> nat \<Rightarrow> matrix" where
  \<comment> \<open>\<^verbatim>\<open>A / N\<close>\<close>
  "mat_div A N = map (map (\<lambda>x. x / real N)) A"

definition mat_neg :: "matrix \<Rightarrow> matrix" where
  "mat_neg A = map (map uminus) A"

definition mat_scale :: "real \<Rightarrow> matrix \<Rightarrow> matrix" where
  \<comment> \<open>\<^verbatim>\<open>c * A\<close> for a number \<open>c\<close>\<close>
  "mat_scale c A = map (map ((*) c)) A"

definition mat_add :: "matrix \<Rightarrow> matrix \<Rightarrow> matrix" where
  "mat_add A B = map2 (map2 (+)) A B"

definition mat_sub :: "matrix \<Rightarrow> matrix \<Rightarrow> matrix" where
  "mat_sub A B = map2 (map2 (-)) A B"

definition mat_mul :: "matrix \<Rightarrow> matrix \<Rightarrow> matrix" where
  \<comment> \<open>\<^verbatim>\<open>A * B\<close>, element by element\<close>
  "mat_mul A B = map2 (map2 (*)) A B"

definition col_times :: "real list \<Rightarrow> matrix \<Rightarrow> matrix" where
  \<comment> \<open>\<^verbatim>\<open>c * A\<close> for a column \<open>c\<close> of shape \<open>(K, 1)\<close>, broadcast along the rows of \<open>A\<close>\<close>
  "col_times c A = map2 (\<lambda>s row. map ((*) s) row) c A"

text \<open>
  \<^verbatim>\<open>fisher_vector(xx, gmm)\<close>. Its argument is the matrix that the reduction returned,
  on which \<^verbatim>\<open>np.atleast_2d\<close> is the identity. \<open>Q_sum\<close> is the column of shape
  \<open>(K, 1)\<close>; \<^verbatim>\<open>Q_sum.squeeze()\<close> is the same numbers as a vector.
\<close>

definition fisher_vector :: "sklearn \<Rightarrow> matrix \<Rightarrow> gmm \<Rightarrow> error + real list" where
  "fisher_vector sk xx g =
     (let N = length xx in
      bind_err (predict_proba sk g xx) (\<lambda>Q.
        let Q_sum = map (\<lambda>s. s / real N) (np_sum0 Q);
            Q_xx = mat_div (np_dot (transpose Q) xx) N;
            Q_xx_2 = mat_div (np_dot (transpose Q) (np_square xx)) N;
            d_pi = map2 (-) Q_sum (weights g);
            d_mu = mat_sub Q_xx (col_times Q_sum (means g));
            d_sigma =
              mat_add
                (mat_add
                  (mat_sub (mat_neg Q_xx_2) (col_times Q_sum (np_square (means g))))
                  (col_times Q_sum (covariances g)))
                (mat_mul (mat_scale 2 Q_xx) (means g))
        in Inr (d_pi @ concat d_mu @ concat d_sigma)))"

text \<open>
  \<^verbatim>\<open>fisher_descriptor(descriptor)\<close>; \<open>K\<close> is the module constant. The rows of the
  2-dimensional descriptor array are handed to the library as a matrix.
  \<^verbatim>\<open>int(descriptor.shape[1]/2)\<close> is \<open>D div 2\<close> (the division is exact in floating
  point for every width an array can have).
\<close>

fun rows_of :: "nd \<Rightarrow> matrix" where
  "rows_of (Scalar v) = []"
| "rows_of (Arr xs) = map ravel xs"

definition fisher_descriptor :: "sklearn \<Rightarrow> nat \<Rightarrow> nd \<Rightarrow> error + real list" where
  "fisher_descriptor sk K descriptor =
     bind_err (flatten_rows descriptor) (\<lambda>descriptor.
     bind_err (shape_at descriptor 1) (\<lambda>D.
     bind_err (pca_fit_transform sk (D div 2) (rows_of descriptor)) (\<lambda>descriptor_pca.
     bind_err (gmm_fit sk K descriptor_pca) (\<lambda>g.
     fisher_vector sk descriptor_pca g))))"

text \<open>
  The statistics and gradients in the words of the specification, for the
  responsibilities \<open>Q\<close> and descriptors \<open>X\<close> (\<open>N\<close> rows each), component \<open>k\<close> and
  coordinate \<open>j\<close>.
\<close>

definition S0 :: "matrix \<Rightarrow> nat \<Rightarrow> real" where
  "S0 Q k = (\<Sum>n<length Q. Q ! n ! k) / real (length Q)"

definition S1 :: "matrix \<Rightarrow> matrix \<Rightarrow> nat \<Rightarrow> nat \<Rightarrow> real" where
  "S1 Q X k j = (\<Sum>n<length Q. Q ! n ! k * X ! n ! j) / real (length Q)"

definition S2 :: "matrix \<Rightarrow> matrix \<Rightarrow> nat \<Rightarrow> nat \<Rightarrow> real" where
  "S2 Q X k j = (\<Sum>n<length Q. Q ! n ! k * (X ! n ! j) ^ 2) / real (length Q)"

definition spec_d_pi :: "matrix \<Rightarrow> gmm \<Rightarrow> nat \<Rightarrow> real" where
  "spec_d_pi Q g k = S0 Q k - weights g ! k"

definition spec_d_mu :: "matrix \<Rightarrow> matrix \<Rightarrow> gmm \<Rightarrow> nat \<Rightarrow> nat \<Rightarrow> real" where
  "spec_d_mu Q X g k j = S1 Q X k j - S0 Q k * means g ! k ! j"

definition spec_d_sigma :: "matrix \<Rightarrow> matrix \<Rightarrow> gmm \<Rightarrow> nat \<Rightarrow> nat \<Rightarrow> real" where
  "spec_d_sigma Q X g k j =
     - S2 Q X k j - S0 Q k * (means g ! k ! j) ^ 2 + S0 Q k * covariances g ! k ! j
       + 2 * S1 Q X k j * means g ! k ! j"

text \<open>\<open>tab K d f\<close> is the \<open>K\<close> by \<open>d\<close> matrix with entry \<open>f k j\<close> in row \<open>k\<close>, column \<open>j\<close>.\<close>

definition tab :: "nat \<Rightarrow> nat \<Rightarrow> (nat \<Rightarrow> nat \<Rightarrow> real) \<Rightarrow> matrix" where
  "tab K d f = map (\<lambda>k. map (f k) [0..<d]) [0..<K]"

section \<open>Natural sorting\<close>

text \<open>
  \<^verbatim>\<open>sorted_alphanumeric(data)\<close>. A character is a Unicode code point below 256. On
  these, \<^verbatim>\<open>str.isdigit\<close> holds for the ASCII digits and for the superscripts
  \<open>\<^sup>2\<close>, \<open>\<^sup>3\<close>, \<open>\<^sup>1\<close> (178, 179, 185), on which \<^verbatim>\<open>int\<close> raises ValueError;
  \<^verbatim>\<open>str.lower\<close> maps \<open>A\<close> to \<open>Z\<close> and the upper-case letters 192 to 222 (except
  the multiplication sign 215) to the character 32 above. The pattern \<^verbatim>\<open>[0-9]+\<close> matches
  runs of ASCII digits, and \<^verbatim>\<open>re.split\<close> with the group returns the text before the
  first run, the run, the text after it, and so on, ending with a text (texts may be
  empty). Python's integers are unbounded; a file name is shorter than the 4300 digits
  from which \<^verbatim>\<open>int\<close> refuses to convert.
\<close>

definition is_ascii_digit :: "char \<Rightarrow> bool" where
  "is_ascii_digit c = (48 \<le> (of_char c :: nat) \<and> (of_char c :: nat) \<le> 57)"

definition py_isdigit :: "char \<Rightarrow> bool" where
  "py_isdigit c = (is_ascii_digit c \<or> (of_char c :: nat) \<in> {178, 179, 185})"

definition py_lower :: "char \<Rightarrow> char" where
  "py_lower c =
     (let n = (of_char c :: nat)
      in if (65 \<le> n \<and> n \<le> 90) \<or> (192 \<le> n \<and> n \<le> 222 \<and> n \<noteq> 215)
         then char_of (n + 32) else c)"

definition py_int :: "string \<Rightarrow> int" where
  "py_int text = foldl (\<lambda>a c. 10 * a + (int (of_char c) - 48)) 0 text"

function re_split :: "string \<Rightarrow> string list" where
  "re_split s =
     (let text = takeWhile (\<lambda>c. \<not> is_ascii_digit c) s;
          r = dropWhile (\<lambda>c. \<not> is_ascii_digit c) s
      in if r = [] then [text]
         else text # takeWhile is_ascii_digit r # re_split (dropWhile is_ascii_digit r))"
  by pat_completeness auto
termination
proof (relation "measure length")
  show "wf (measure length)" by simp
next
  fix s :: string and x xa
  assume x: "x = takeWhile (\<lambda>c. \<not> is_ascii_digit c) s"
    and xa: "xa = dropWhile (\<lambda>c. \<not> is_ascii_digit c) s" and ne: "xa \<noteq> []"
  have "is_ascii_digit (hd xa)" using hd_dropWhile[of "\<lambda>c. \<not> is_ascii_digit c" s] xa ne by simp
  then have "dropWhile is_ascii_digit xa = dropWhile is_ascii_digit (tl xa)"
    using ne by (cases xa) auto
  then have "length (dropWhile is_ascii_digit xa) \<le> length (tl xa)"
    using length_dropWhile_le[of is_ascii_digit "tl xa"] by (simp del: length_tl)
  also have "\<dots> < length xa" using ne by simp
  also have "\<dots> \<le> length s" unfolding xa by (rule length_dropWhile_le)
  finally show "(dropWhile is_ascii_digit xa, s) \<in> measure length" by simp
qed

declare re_split.simps [simp del]

datatype key_part = KInt int | KStr string

definition convert :: "string \<Rightarrow> error + key_part" where
  "convert text =
     (if text \<noteq> [] \<and> list_all py_isdigit text
      then (if list_all is_ascii_digit text then Inr (KInt (py_int text)) else Inl ValueError)
      else Inr (KStr (map py_lower text)))"

definition alphanum_key :: "string \<Rightarrow> error + key_part list" where
  "alphanum_key key = map_err convert (re_split key)"

text \<open>
  Python compares two keys as lists: the first position where they differ decides, by
  \<open><\<close> on the two parts there, which raises TypeError for a number against a text; a
  proper prefix is smaller.
\<close>

fun part_lt :: "key_part \<Rightarrow> key_part \<Rightarrow> error + bool" where
  "part_lt (KInt a) (KInt b) = Inr (a < b)"
| "part_lt (KStr a) (KStr b) = Inr (a < b)"
| "part_lt (KInt a) (KStr b) = Inl TypeError"
| "part_lt (KStr a) (KInt b) = Inl TypeError"

fun key_lt :: "key_part list \<Rightarrow> key_part list \<Rightarrow> error + bool" where
  "key_lt [] [] = Inr False"
| "key_lt [] (y # ys) = Inr True"
| "key_lt (x # xs) [] = Inr False"
| "key_lt (x # xs) (y # ys) = (if x = y then key_lt xs ys else part_lt x y)"

text \<open>
  \<^verbatim>\<open>sorted\<close> computes the keys of all items first and then sorts stably, comparing
  keys by \<open><\<close> only. It is modelled by the stable insertion sort of the library over a
  linear order on keys that agrees with Python's comparison on parts of one kind and
  puts numbers before texts. Keys of file names hold texts and numbers in turn, so two
  of them never meet a number against a text (lemma \<open>key_lt_alternating\<close> below), and on
  a linear preorder every stable sort returns the same list.
\<close>

instantiation key_part :: linorder
begin

fun less_eq_key_part :: "key_part \<Rightarrow> key_part \<Rightarrow> bool" where
  "less_eq_key_part (KInt a) (KInt b) = (a \<le> b)"
| "less_eq_key_part (KStr a) (KStr b) = (a \<le> b)"
| "less_eq_key_part (KInt a) (KStr b) = True"
| "less_eq_key_part (KStr a) (KInt b) = False"

fun less_key_part :: "key_part \<Rightarrow> key_part \<Rightarrow> bool" where
  "less_key_part (KInt a) (KInt b) = (a < b)"
| "less_key_part (KStr a) (KStr b) = (a < b)"
| "less_key_part (KInt a) (KStr b) = True"
| "less_key_part (KStr a) (KInt b) = False"

instance
proof
  fix x y z :: key_part
  show "(x < y) = (x \<le> y \<and> \<not> y \<le> x)" by (cases x; cases y) auto
  show "x \<le> x" by (cases x) auto
  show "x \<le> y \<Longrightarrow> y \<le> z \<Longrightarrow> x \<le> z" by (cases x; cases y; cases z) auto
  show "x \<le> y \<Longrightarrow> y \<le> x \<Longrightarrow> x = y" by (cases x; cases y) auto
  show "x \<le> y \<or> y \<le> x" by (cases x; cases y) auto
qed

end

definition sorted_alphanumeric :: "string list \<Rightarrow> error + string list" where
  "sorted_alphanumeric data =
     bind_err (map_err alphanum_key data) (\<lambda>keys.
       Inr (map snd (sort_key fst (zip keys data))))"

section \<open>Trajectory records and the extractors\<close>

text \<open>
  \<^verbatim>\<open>densetrack.densetrack\<close> returns a 1-dimensional structured array; each of its
  items is a record whose fields are read by position. A record is the list of its
  fields, \<open>r[-i]\<close> is the \<open>i\<close>-th field from the end, and a video without trajectories
  is the empty list.
\<close>

type_synonym track = "nd list"

definition field_from_end :: "track \<Rightarrow> nat \<Rightarrow> error + nd" where
  "field_from_end r i =
     (if 0 < i \<and> i \<le> length r then Inr (r ! (length r - i)) else Inl IndexError)"

definition read_hog :: "track list \<Rightarrow> error + nd" where
  "read_hog descriptors =
     bind_err (map_err (\<lambda>r. field_from_end r 5) descriptors) np_array"

definition read_hof :: "track list \<Rightarrow> error + nd" where
  "read_hof descriptors =
     bind_err (map_err (\<lambda>r. field_from_end r 4) descriptors) np_array"

definition read_mbh :: "track list \<Rightarrow> error + nd \<times> nd" where
  "read_mbh descriptors =
     bind_err (bind_err (map_err (\<lambda>r. field_from_end r 3) descriptors) np_array)
       (\<lambda>mbh_x_descriptors.
     bind_err (bind_err (map_err (\<lambda>r. field_from_end r 2) descriptors) np_array)
       (\<lambda>mbh_y_descriptors.
     Inr (mbh_x_descriptors, mbh_y_descriptors)))"

section \<open>Feature tables\<close>

text \<open>
  A pandas data frame: its column labels and its rows, each row holding one cell per
  column. \<^verbatim>\<open>pd.DataFrame()\<close> has neither columns nor rows, and \<^verbatim>\<open>df.empty\<close> holds
  when either axis has length 0. The row index and the column types are left out.
\<close>

datatype cell = Name string | Num real | NaN

record data_frame =
  columns :: "string list"
  rows :: "cell list list"

definition new_frame :: data_frame where
  "new_frame = \<lparr> columns = [], rows = [] \<rparr>"

definition df_empty :: "data_frame \<Rightarrow> bool" where
  "df_empty df = (columns df = [] \<or> rows df = [])"

text \<open>\<^verbatim>\<open>str(i)\<close> for \<open>i \<ge> 0\<close>: the decimal digits.\<close>

fun str_nat :: "nat \<Rightarrow> string" where
  "str_nat n =
     (if n < 10 then [''0123456789'' ! n]
      else str_nat (n div 10) @ [''0123456789'' ! (n mod 10)])"

declare str_nat.simps [simp del]

text \<open>
  \<^verbatim>\<open>add_row_to_table(data_frame, name, features)\<close>. The new row is built from the
  dictionary \<open>new_row_data\<close> with the columns of the frame: a column without an entry
  in the dictionary is NaN, an entry without a column is dropped.
\<close>

definition add_row_to_table :: "data_frame \<Rightarrow> string \<Rightarrow> real list \<Rightarrow> data_frame" where
  "add_row_to_table data_frame name features =
     (let data_frame =
            (if df_empty data_frame then
               (let col_names = ''name'' # map str_nat [0..<length features]
                in \<lparr> columns = col_names, rows = [] \<rparr>)
             else data_frame);
          new_row_data =
            fold (\<lambda>(i, val) m. m(str_nat i \<mapsto> Num val)) (enumerate 0 features)
              [''name'' \<mapsto> Name name];
          new_row =
            map (\<lambda>c. case new_row_data c of Some v \<Rightarrow> v | None \<Rightarrow> NaN) (columns data_frame)
      in data_frame\<lparr> rows := rows data_frame @ [new_row] \<rparr>)"

text \<open>The files written by the run, oldest first, each with its path and content.\<close>

datatype content = Csv data_frame | Npy "track list"

definition save_as_csv ::
  "data_frame \<Rightarrow> string \<Rightarrow> (string \<times> content) list \<Rightarrow> (string \<times> content) list" where
  "save_as_csv data_frame path fs =
     (if \<not> df_empty data_frame then fs @ [(path, Csv data_frame)] else fs)"

section \<open>Paths\<close>

text \<open>\<^verbatim>\<open>os.path.split(p)[1]\<close> and \<^verbatim>\<open>os.path.splitext(p)\<close> of the POSIX path module.\<close>

definition split_tail :: "string \<Rightarrow> string" where
  "split_tail p = rev (takeWhile (\<lambda>c. c \<noteq> CHR ''/'') (rev p))"

definition splitext :: "string \<Rightarrow> string \<times> string" where
  "splitext p =
     (let tail = split_tail p;
          ext = rev (takeWhile (\<lambda>c. c \<noteq> CHR ''.'') (rev tail));
          stem = take (length tail - length ext - 1) tail
      in if CHR ''.'' \<in> set tail \<and> list_ex (\<lambda>c. c \<noteq> CHR ''.'') stem
         then (take (length p - length ext - 1) p, CHR ''.'' # ext)
         else (p, []))"

section \<open>The corpus run\<close>

text \<open>
  The configuration constants at the top of the module; \<open>K_const\<close> is \<^verbatim>\<open>K\<close>. The
  directories are \<^verbatim>\<open>'data'\<close> and \<^verbatim>\<open>'features'\<close>.
\<close>

record config =
  HOG_FISHER_VECTOR :: bool
  HOF_FISHER_VECTOR :: bool
  MBH_FISHER_VECTOR :: bool
  K_const :: nat

definition module_config :: config where
  "module_config = \<lparr> HOG_FISHER_VECTOR = True, HOF_FISHER_VECTOR = True,
                      MBH_FISHER_VECTOR = True, K_const = 128 \<rparr>"

text \<open>
  What the run reads from outside: the listing of the data directory, the decoded
  gray video of a file (\<^verbatim>\<open>read_video\<close>, whose frames come from OpenCV) and the
  trajectory extractor.
\<close>

record source =
  listdir :: "string list"
  read_video :: "string \<Rightarrow> nd"
  densetrack :: "nd \<Rightarrow> error + track list"

text \<open>What the run leaves behind: the lines printed and the files written.\<close>

datatype msg = NoInput | Separator | Running string "nat list" | Completed string | Progress nat

record world =
  printed :: "msg list"
  files :: "(string \<times> content) list"

text \<open>The three data frames that \<^verbatim>\<open>main\<close> keeps in local variables.\<close>

record tables =
  hog_df :: data_frame
  hof_df :: data_frame
  mbh_df :: data_frame

text \<open>An exception leaves the run with the world as it is at that moment.\<close>

fun raise_in :: "world \<Rightarrow> error + 'a \<Rightarrow> (error \<times> world) + 'a" where
  "raise_in w (Inl e) = Inl (e, w)"
| "raise_in w (Inr x) = Inr x"

text \<open>The three channel blocks of the loop body.\<close>

definition hog_step :: "sklearn \<Rightarrow> config \<Rightarrow> string \<Rightarrow> track list \<Rightarrow> tables \<Rightarrow> error + tables" where
  "hog_step sk cfg name tracks t =
     (if HOG_FISHER_VECTOR cfg then
        bind_err (read_hog tracks) (\<lambda>hog_descriptors.
        bind_err (fisher_descriptor sk (K_const cfg) hog_descriptors) (\<lambda>hog_fv.
        Inr (t\<lparr> hog_df := add_row_to_table (hog_df t) name hog_fv \<rparr>)))
      else Inr t)"

definition hof_step :: "sklearn \<Rightarrow> config \<Rightarrow> string \<Rightarrow> track list \<Rightarrow> tables \<Rightarrow> error + tables" where
  "hof_step sk cfg name tracks t =
     (if HOF_FISHER_VECTOR cfg then
        bind_err (read_hof tracks) (\<lambda>hof_descriptors.
        bind_err (fisher_descriptor sk (K_const cfg) hof_descriptors) (\<lambda>hof_fv.
        Inr (t\<lparr> hof_df := add_row_to_table (hof_df t) name hof_fv \<rparr>)))
      else Inr t)"

definition mbh_step :: "sklearn \<Rightarrow> config \<Rightarrow> string \<Rightarrow> track list \<Rightarrow> tables \<Rightarrow> error + tables" where
  "mbh_step sk cfg name tracks t =
     (if MBH_FISHER_VECTOR cfg then
        bind_err (read_mbh tracks) (\<lambda>(mbh_x_descriptors, mbh_y_descriptors).
        bind_err (fisher_descriptor sk (K_const cfg) mbh_x_descriptors) (\<lambda>mbh_x_fv.
        bind_err (fisher_descriptor sk (K_const cfg) mbh_y_descriptors) (\<lambda>mbh_y_fv.
        let mbh_fv = mbh_x_fv @ mbh_y_fv
        in Inr (t\<lparr> mbh_df := add_row_to_table (mbh_df t) name mbh_fv \<rparr>))))
      else Inr t)"

text \<open>One pass of the loop body, for the \<open>i\<close>-th file of the sorted listing.\<close>

definition process_video ::
  "sklearn \<Rightarrow> source \<Rightarrow> config \<Rightarrow> nat \<Rightarrow> string \<Rightarrow> world \<times> tables
     \<Rightarrow> (error \<times> world) + (world \<times> tables)" where
  "process_video sk src cfg i file = (\<lambda>(w, t).
     let video = read_video src file;
         w = w\<lparr> printed := printed w @ [Separator, Running file (shape video)] \<rparr>
     in bind_err (raise_in w (densetrack src video)) (\<lambda>tracks.
        let name = fst (splitext (split_tail file)) in
        bind_err
          (if \<not> (HOG_FISHER_VECTOR cfg \<or> HOF_FISHER_VECTOR cfg \<or> MBH_FISHER_VECTOR cfg)
           then Inr (w\<lparr> files := files w
                        @ [(''features/'' @ name @ ''-trajectory.npy'', Npy tracks)] \<rparr>, t)
           else bind_err
                  (raise_in w
                    (bind_err (hog_step sk cfg name tracks t) (\<lambda>t.
                     bind_err (hof_step sk cfg name tracks t) (\<lambda>t.
                     mbh_step sk cfg name tracks t))))
                  (\<lambda>t. Inr (w, t)))
          (\<lambda>(w, t).
             Inr (w\<lparr> printed := printed w
                        @ Completed file # (if (i + 1) mod 10 = 0 then [Progress (i + 1)] else []) \<rparr>,
                  t))))"

fun corpus_loop ::
  "sklearn \<Rightarrow> source \<Rightarrow> config \<Rightarrow> (nat \<times> string) list \<Rightarrow> world \<times> tables
     \<Rightarrow> (error \<times> world) + (world \<times> tables)" where
  "corpus_loop sk src cfg [] s = Inr s"
| "corpus_loop sk src cfg ((i, file) # rest) s =
     bind_err (process_video sk src cfg i file s) (corpus_loop sk src cfg rest)"

text \<open>
  The statements after the loop read the local variables \<^verbatim>\<open>hog_df\<close>, \<^verbatim>\<open>hof_df\<close>
  and \<^verbatim>\<open>mbh_df\<close>, which are bound only in the \<^verbatim>\<open>else\<close> branch: \<open>None\<close> stands
  for the unbound variables.
\<close>

fun save_local :: "world \<Rightarrow> data_frame option \<Rightarrow> string \<Rightarrow> (error \<times> world) + world" where
  "save_local w None path = Inl (UnboundLocalError, w)"
| "save_local w (Some df) path = Inr (w\<lparr> files := save_as_csv df path (files w) \<rparr>)"

definition main :: "sklearn \<Rightarrow> source \<Rightarrow> config \<Rightarrow> world \<Rightarrow> (error \<times> world) + world" where
  "main sk src cfg w =
     bind_err
       (if listdir src = [] then Inr (w\<lparr> printed := printed w @ [NoInput] \<rparr>, None)
        else
          bind_err (raise_in w (sorted_alphanumeric (listdir src))) (\<lambda>sorted_files.
          bind_err
            (corpus_loop sk src cfg (enumerate 0 sorted_files)
               (w, \<lparr> hog_df = new_frame, hof_df = new_frame, mbh_df = new_frame \<rparr>))
            (\<lambda>(w, t). Inr (w, Some t))))
       (\<lambda>(w, locals).
          bind_err (if HOG_FISHER_VECTOR cfg
                    then save_local w (map_option hog_df locals) ''features/hog_features.csv''
                    else Inr w) (\<lambda>w.
          bind_err (if HOF_FISHER_VECTOR cfg
                    then save_local w (map_option hof_df locals) ''features/hof_features.csv''
                    else Inr w) (\<lambda>w.
          (if MBH_FISHER_VECTOR cfg
           then save_local w (map_option mbh_df locals) ''features/mbh_features.csv''
           else Inr w))))"

section \<open>Channels\<close>

text \<open>
  The three channel blocks of the loop body have one form. For stating what the run
  does to each of them: whether a channel is enabled, its data frame, the path of its
  table, the Fisher vector that the loop body computes for it from the trajectories of
  one video, and the name under which a file's row is stored.
\<close>

datatype channel = HOG | HOF | MBH

fun enabled :: "config \<Rightarrow> channel \<Rightarrow> bool" where
  "enabled cfg HOG = HOG_FISHER_VECTOR cfg"
| "enabled cfg HOF = HOF_FISHER_VECTOR cfg"
| "enabled cfg MBH = MBH_FISHER_VECTOR cfg"

fun table :: "tables \<Rightarrow> channel \<Rightarrow> data_frame" where
  "table t HOG = hog_df t"
| "table t HOF = hof_df t"
| "table t MBH = mbh_df t"

fun csv_path :: "channel \<Rightarrow> string" where
  "csv_path HOG = ''features/hog_features.csv''"
| "csv_path HOF = ''features/hof_features.csv''"
| "csv_path MBH = ''features/mbh_features.csv''"

fun channel_fv :: "sklearn \<Rightarrow> nat \<Rightarrow> channel \<Rightarrow> track list \<Rightarrow> error + real list" where
  "channel_fv sk k HOG tracks = bind_err (read_hog tracks) (fisher_descriptor sk k)"
| "channel_fv sk k HOF tracks = bind_err (read_hof tracks) (fisher_descriptor sk k)"
| "channel_fv sk k MBH tracks =
     bind_err (read_mbh tracks) (\<lambda>(mbh_x_descriptors, mbh_y_descriptors).
     bind_err (fisher_descriptor sk k mbh_x_descriptors) (\<lambda>mbh_x_fv.
     bind_err (fisher_descriptor sk k mbh_y_descriptors) (\<lambda>mbh_y_fv.
     Inr (mbh_x_fv @ mbh_y_fv))))"

definition file_fv :: "sklearn \<Rightarrow> source \<Rightarrow> config \<Rightarrow> channel \<Rightarrow> string \<Rightarrow> error + real list" where
  "file_fv sk src cfg c file =
     bind_err (densetrack src (read_video src file)) (channel_fv sk (K_const cfg) c)"

definition name_of :: "string \<Rightarrow> string" where
  "name_of file = fst (splitext (split_tail file))"

text \<open>The table that appending the rows \<open>(file, vector)\<close> in order to \<open>df\<close> gives.\<close>

definition add_rows :: "(string \<times> real list) list \<Rightarrow> data_frame \<Rightarrow> data_frame" where
  "add_rows rs df = fold (\<lambda>(file, fv) df. add_row_to_table df (name_of file) fv) rs df"

section \<open>Auxiliary notions for the proofs\<close>

definition row_of :: "string list \<Rightarrow> string \<Rightarrow> real list \<Rightarrow> cell list" where
  "row_of cols name features =
     map (\<lambda>c. case fold (\<lambda>(i, val) m. m(str_nat i \<mapsto> Num val)) (enumerate 0 features)
                      [''name'' \<mapsto> Name name] c
               of Some v \<Rightarrow> v | None \<Rightarrow> NaN) cols"

text \<open>A table that holds rows: its first column is \<open>name\<close>.\<close>

definition named :: "data_frame \<Rightarrow> bool" where
  "named df = (rows df \<noteq> [] \<and> (\<exists>cols. columns df = ''name'' # cols))"

text \<open>The form of a key: lower-cased text and numbers in turn, text first and last.\<close>

fun alternating :: "key_part list \<Rightarrow> bool" where
  "alternating [KStr s] = True"
| "alternating (KStr s # KInt n # r) = alternating r"
| "alternating ks = False"

definition new_tables :: tables where
  "new_tables = \<lparr> hog_df = new_frame, hof_df = new_frame, mbh_df = new_frame \<rparr>"

definition written :: "config \<Rightarrow> tables \<Rightarrow> (string \<times> content) list" where
  "written cfg t = map (\<lambda>c. (csv_path c, Csv (table t c))) (filter (enabled cfg) [HOG, HOF, MBH])"

text \<open>The first cells of the rows of the tables written to \<open>path\<close>.\<close>

definition row_names :: "string \<Rightarrow> world \<Rightarrow> cell list" where
  "row_names path w =
     concat (map (\<lambda>(p, x). case x of Csv df \<Rightarrow> if p = path then map hd (rows df) else []
                                | Npy ts \<Rightarrow> [])
                 (files w))"

section \<open>Sample data\<close>

text \<open>A batch of two trajectories with 2 by 2 blocks.\<close>

definition patch_batch :: nd where
  "patch_batch = Arr [Arr [Arr [Scalar 1, Scalar 2], Arr [Scalar 3, Scalar 4]],
                      Arr [Arr [Scalar 5, Scalar 6], Arr [Scalar 7, Scalar 8]]]"

text \<open>A matrix of odd width 3 and responsibilities for two equally likely components.\<close>

definition odd_batch :: nd where
  "odd_batch = Arr [Arr [Scalar 1, Scalar 2, Scalar 3], Arr [Scalar 4, Scalar 5, Scalar 6]]"

definition half_Q :: matrix where
  "half_Q = [[1 / 2, 1 / 2], [1 / 2, 1 / 2]]"

text \<open>
  A stand-in for the library with fixed answers: the reduction keeps the first \<open>c\<close>
  columns, the fit returns \<open>g0\<close> and the responsibilities are \<open>Q0\<close>. It has the
  shapes of the library's results, not their numbers.
\<close>

definition stub_sklearn :: "gmm \<Rightarrow> matrix \<Rightarrow> sklearn" where
  "stub_sklearn g0 Q0 =
     \<lparr> pca_fit_transform = (\<lambda>c X. Inr (map (take c) X)),
       gmm_fit = (\<lambda>k X. Inr g0),
       predict_proba = (\<lambda>g X. Inr Q0) \<rparr>"

definition flat_gmm :: "nat \<Rightarrow> nat \<Rightarrow> gmm" where
  "flat_gmm K d = \<lparr> weights = replicate K (1 / real K), means = replicate K (replicate d 0),
                    covariances = replicate K (replicate d 1) \<rparr>"

definition toy_xx :: matrix where "toy_xx = [[1], [3]]"
definition toy_Q :: matrix where "toy_Q = [[1, 0], [1 / 2, 1 / 2]]"
definition toy_gmm :: gmm where
  "toy_gmm = \<lparr> weights = [3 / 4, 1 / 4], means = [[1], [3]], covariances = [[1], [1]] \<rparr>"

text \<open>
  A trajectory record with blocks of width 2 (HOG, HOF, MBH-X, MBH-Y at positions
  \<open>-5\<close> to \<open>-2\<close>), a source in which a video without frames has no trajectories and
  every other video has this one, a library stand-in for one component, and the empty
  world.
\<close>

definition sample_track :: track where
  "sample_track = [Arr [Scalar 1, Scalar 2], Arr [Scalar 3, Scalar 4], Arr [Scalar 5, Scalar 6],
                   Arr [Scalar 7, Scalar 8], Scalar 0]"

definition one_frame :: nd where
  "one_frame = Arr [Arr [Arr [Scalar 0]]]"

definition sample_source :: "string list \<Rightarrow> string list \<Rightarrow> source" where
  "sample_source names blank =
     \<lparr> listdir = names,
       read_video = (\<lambda>file. if file \<in> set blank then Arr [] else one_frame),
       densetrack = (\<lambda>video. if video = Arr [] then Inr [] else Inr [sample_track]) \<rparr>"

definition tiny_sklearn :: sklearn where
  "tiny_sklearn = stub_sklearn (flat_gmm 1 1) [[1]]"

definition tiny_config :: config where
  "tiny_config = \<lparr> HOG_FISHER_VECTOR = True, HOF_FISHER_VECTOR = True,
                    MBH_FISHER_VECTOR = True, K_const = 1 \<rparr>"

definition world0 :: world where
  "world0 = \<lparr> printed = [], files = [] \<rparr>"

text \<open>One trajectory with blocks of width 96 and a stand-in library for \<open>K = 4\<close>.\<close>

definition wide_row :: nd where
  "wide_row = Arr (replicate 96 (Scalar 0))"

definition wide_track :: track where
  "wide_track = [wide_row, wide_row, wide_row, wide_row, Scalar 0]"

definition wide_sklearn :: sklearn where
  "wide_sklearn = stub_sklearn (flat_gmm 4 48) [replicate 4 (1 / 4)]"

definition wide_config :: config where
  "wide_config = \<lparr> HOG_FISHER_VECTOR = True, HOF_FISHER_VECTOR = True,
                    MBH_FISHER_VECTOR = True, K_const = 4 \<rparr>"

section \<open>Properties of flattening\<close>

lemma length_ravel: "rect a \<Longrightarrow> length (ravel a) = prod_list (shape a)"
proof (induction a)
  case (Scalar v)
  show ?case by simp
next
  case (Arr xs)
  show ?case
  proof (cases xs)
    case Nil
    then show ?thesis by simp
  next
    case (Cons y ys)
    have each: "\<forall>x\<in>set xs. length (ravel x) = prod_list (shape y)"
      using Arr Cons by (auto simp: list_all_iff)
    have "length (concat (map ravel xs)) = sum_list (map (\<lambda>x. prod_list (shape y)) xs)"
      using each by (simp add: length_concat comp_def cong: map_cong)
    also have "\<dots> = length xs * prod_list (shape y)"
      by (simp add: sum_list_triv)
    finally show ?thesis using Cons by simp
  qed
qed

lemma chunks_concat:
  "\<forall>x\<in>set xss. length x = m \<Longrightarrow> chunks (length xss) m (concat xss) = xss"
  by (induction xss) auto

lemma reshape_ravel: "rect a \<Longrightarrow> reshape (shape a) (ravel a) = a"
proof (induction a)
  case (Scalar v)
  show ?case by simp
next
  case (Arr xs)
  show ?case
  proof (cases xs)
    case Nil
    then show ?thesis by simp
  next
    case (Cons y ys)
    have sh: "\<forall>x\<in>set xs. shape x = shape y" and r: "\<forall>x\<in>set xs. rect x"
      using Arr.prems Cons by (auto simp: list_all_iff)
    have len: "\<forall>l\<in>set (map ravel xs). length l = prod_list (shape y)"
      using sh r by (auto simp: length_ravel)
    have "chunks (length (map ravel xs)) (prod_list (shape y)) (concat (map ravel xs))
            = map ravel xs"
      using len by (rule chunks_concat)
    then have ch: "chunks (Suc (length ys)) (prod_list (shape y)) (concat (map ravel xs))
            = map ravel xs"
      using Cons by simp
    have "map (reshape (shape y)) (map ravel xs) = xs"
    proof (rule map_idI[of xs "\<lambda>x. reshape (shape y) (ravel x)", simplified map_map[symmetric] comp_def[symmetric]])
      fix x assume "x \<in> set xs"
      then show "reshape (shape y) (ravel x) = x"
        using Arr.IH[of x] sh r by auto
    qed
    then show ?thesis using Cons ch by simp
  qed
qed

lemma shape_flatten: "shape (flatten a) = [length (ravel a)]"
  by (cases "ravel a") (simp_all add: flatten_def)

lemma ravel_flatten: "ravel (flatten a) = ravel a"
  by (simp add: flatten_def comp_def)

lemma concat_ravel_flatten: "concat (map ravel (map flatten blocks)) = concat (map ravel blocks)"
  by (simp add: comp_def ravel_flatten)

lemma flatten_rows_matrix: "ndim a \<le> 2 \<Longrightarrow> flatten_rows a = Inr a"
  by (simp add: flatten_rows_def)

lemma fisher_descriptor_matrix:
  assumes "shape descriptor = [N, D]"
  shows "fisher_descriptor sk K descriptor =
     bind_err (pca_fit_transform sk (D div 2) (rows_of descriptor)) (\<lambda>descriptor_pca.
     bind_err (gmm_fit sk K descriptor_pca) (\<lambda>g.
     fisher_vector sk descriptor_pca g))"
  using assms by (simp add: fisher_descriptor_def flatten_rows_def shape_at_def ndim_def)

text \<open>
  Claim C8. When the stacked descriptor blocks have more than two dimensions, the
  pipeline replaces every row (one trajectory's block) by its 1-dimensional flattening.
  The flattening loses nothing and keeps the order: the flattened row lists exactly the
  elements of the block in row-major order, the whole matrix read row by row lists the
  elements of the whole array in row-major order, and reshaping a flattened row to the
  shape of a block gives the block back. \<^verbatim>\<open>fisher_descriptor\<close> on the batch is
  \<^verbatim>\<open>fisher_descriptor\<close> on the matrix of the flattened rows: the reduction is asked
  for half the number of elements of a block and is handed the flattened rows.
\<close>

theorem flatten_rows_lossless:
  assumes "rect descriptor" and "ndim descriptor > 2"
  shows "\<exists>blocks. descriptor = Arr blocks
           \<and> flatten_rows descriptor = Inr (Arr (map flatten blocks))
           \<and> shape (Arr (map flatten blocks)) = [length blocks, prod_list (tl (shape descriptor))]
           \<and> ravel (Arr (map flatten blocks)) = ravel descriptor
           \<and> (\<forall>r\<in>set blocks. ravel (flatten r) = ravel r
                 \<and> reshape (tl (shape descriptor)) (ravel (flatten r)) = r)
           \<and> fisher_descriptor sk K descriptor
               = fisher_descriptor sk K (Arr (map flatten blocks))
           \<and> fisher_descriptor sk K descriptor
               = bind_err
                   (pca_fit_transform sk (prod_list (tl (shape descriptor)) div 2)
                      (map ravel blocks))
                   (\<lambda>descriptor_pca.
                      bind_err (gmm_fit sk K descriptor_pca) (\<lambda>g.
                      fisher_vector sk descriptor_pca g))"
proof -
  obtain y ys where d: "descriptor = Arr (y # ys)"
    using assms(2) by (cases descriptor rule: shape.cases) (auto simp: ndim_def)
  let ?blocks = "y # ys"
  let ?flat = "Arr (map flatten ?blocks)"
  have sh: "\<forall>x\<in>set ?blocks. shape x = shape y" and r: "\<forall>x\<in>set ?blocks. rect x"
    using assms(1) d by (auto simp: list_all_iff)
  have len: "\<forall>x\<in>set ?blocks. length (ravel x) = prod_list (shape y)"
    using sh r by (auto simp: length_ravel)
  have same: "list_all (\<lambda>x. shape x = shape (hd (map flatten ?blocks))) (map flatten ?blocks)"
    using len by (auto simp: list_all_iff shape_flatten)
  have run: "flatten_rows descriptor = Inr ?flat"
    using assms(2) same unfolding flatten_rows_def d np_array_def
    by (simp add: Let_def del: list.map)
  have shp: "shape ?flat = [length ?blocks, prod_list (tl (shape descriptor))]"
    using d by (simp add: shape_flatten length_ravel r)
  have rv: "ravel ?flat = ravel descriptor"
    unfolding d ravel.simps by (rule concat_ravel_flatten)
  have inv: "\<forall>x\<in>set ?blocks. ravel (flatten x) = ravel x
                 \<and> reshape (tl (shape descriptor)) (ravel (flatten x)) = x"
  proof
    fix x assume x: "x \<in> set ?blocks"
    have "reshape (shape x) (ravel x) = x" using r x by (intro reshape_ravel) blast
    moreover have "tl (shape descriptor) = shape x" using sh x d by auto
    ultimately show "ravel (flatten x) = ravel x
                 \<and> reshape (tl (shape descriptor)) (ravel (flatten x)) = x"
      by (simp add: ravel_flatten)
  qed
  have "ndim ?flat \<le> 2" unfolding ndim_def shp by simp
  then have two: "flatten_rows ?flat = Inr ?flat"
    by (rule flatten_rows_matrix)
  have pipe: "fisher_descriptor sk K descriptor = fisher_descriptor sk K ?flat"
    unfolding fisher_descriptor_def run two by simp
  have rows: "rows_of ?flat = map ravel ?blocks"
    by (simp add: ravel_flatten del: list.map)
  have call: "fisher_descriptor sk K descriptor
               = bind_err
                   (pca_fit_transform sk (prod_list (tl (shape descriptor)) div 2)
                      (map ravel ?blocks))
                   (\<lambda>descriptor_pca.
                      bind_err (gmm_fit sk K descriptor_pca) (\<lambda>g.
                      fisher_vector sk descriptor_pca g))"
    unfolding pipe fisher_descriptor_matrix[OF shp] rows ..
  show ?thesis using d run shp rv inv pipe call by blast
qed

theorem flatten_rows_lossless_witness:
  "rect patch_batch \<and> ndim patch_batch > 2
   \<and> flatten_rows patch_batch
       = Inr (Arr [Arr [Scalar 1, Scalar 2, Scalar 3, Scalar 4],
                   Arr [Scalar 5, Scalar 6, Scalar 7, Scalar 8]])
   \<and> reshape [2, 2] [5, 6, 7, 8] = Arr [Arr [Scalar 5, Scalar 6], Arr [Scalar 7, Scalar 8]]
   \<and> fisher_descriptor (stub_sklearn (flat_gmm 2 2) half_Q) 2 patch_batch
       = fisher_descriptor (stub_sklearn (flat_gmm 2 2) half_Q) 2
           (Arr [Arr [Scalar 1, Scalar 2, Scalar 3, Scalar 4],
                 Arr [Scalar 5, Scalar 6, Scalar 7, Scalar 8]])
   \<and> fisher_descriptor (stub_sklearn (flat_gmm 2 2) half_Q) 2 patch_batch
       = Inr [0, 0, 3 / 2, 2, 3 / 2, 2, - 6, - 19 / 2, - 6, - 19 / 2]"
proof -
  let ?sk = "stub_sklearn (flat_gmm 2 2) half_Q"
  have h1: "rect patch_batch" by (simp add: patch_batch_def)
  have h2: "ndim patch_batch > 2" by (simp add: patch_batch_def ndim_def)
  from flatten_rows_lossless[OF h1 h2, of ?sk 2] obtain blocks where
    a: "patch_batch = Arr blocks"
    and b: "flatten_rows patch_batch = Inr (Arr (map flatten blocks))"
    and c: "\<forall>r\<in>set blocks. ravel (flatten r) = ravel r
              \<and> reshape (tl (shape patch_batch)) (ravel (flatten r)) = r"
    and p: "fisher_descriptor ?sk 2 patch_batch = fisher_descriptor ?sk 2 (Arr (map flatten blocks))"
    and q: "fisher_descriptor ?sk 2 patch_batch
               = bind_err
                   (pca_fit_transform ?sk (prod_list (tl (shape patch_batch)) div 2)
                      (map ravel blocks))
                   (\<lambda>descriptor_pca.
                      bind_err (gmm_fit ?sk 2 descriptor_pca) (\<lambda>g.
                      fisher_vector ?sk descriptor_pca g))"
    by blast
  have bl: "blocks = [Arr [Arr [Scalar 1, Scalar 2], Arr [Scalar 3, Scalar 4]],
                      Arr [Arr [Scalar 5, Scalar 6], Arr [Scalar 7, Scalar 8]]]"
    using a by (simp add: patch_batch_def)
  have f: "flatten_rows patch_batch
       = Inr (Arr [Arr [Scalar 1, Scalar 2, Scalar 3, Scalar 4],
                   Arr [Scalar 5, Scalar 6, Scalar 7, Scalar 8]])"
    using b by (simp add: bl flatten_def)
  have rs: "reshape [2, 2] [5, 6, 7, 8] = Arr [Arr [Scalar 5, Scalar 6], Arr [Scalar 7, Scalar 8]]"
    using c by (simp add: bl flatten_def patch_batch_def eval_nat_numeral)
  have p': "fisher_descriptor ?sk 2 patch_batch
       = fisher_descriptor ?sk 2
           (Arr [Arr [Scalar 1, Scalar 2, Scalar 3, Scalar 4],
                 Arr [Scalar 5, Scalar 6, Scalar 7, Scalar 8]])"
    using p by (simp add: bl flatten_def)
  have "bind_err
          (pca_fit_transform ?sk (prod_list (tl (shape patch_batch)) div 2) (map ravel blocks))
          (\<lambda>descriptor_pca.
             bind_err (gmm_fit ?sk 2 descriptor_pca) (\<lambda>g. fisher_vector ?sk descriptor_pca g))
        = Inr [0, 0, 3 / 2, 2, 3 / 2, 2, - 6, - 19 / 2, - 6, - 19 / 2]"
    unfolding bl by code_simp
  then have v: "fisher_descriptor ?sk 2 patch_batch
       = Inr [0, 0, 3 / 2, 2, 3 / 2, 2, - 6, - 19 / 2, - 6, - 19 / 2]"
    using q by simp
  show ?thesis using h1 h2 f rs p' v by blast
qed

section \<open>The Fisher encoder in closed form\<close>

lemma has_shape_nth: "has_shape n m A \<Longrightarrow> i < n \<Longrightarrow> length (A ! i) = m"
  by (auto simp: has_shape_def list_all_length)

lemma transpose_has_shape:
  assumes "has_shape n m A" and "0 < n"
  shows "transpose A = map (\<lambda>i. map (\<lambda>j. A ! j ! i) [0..<n]) [0..<m]"
proof -
  have len: "length A = n" using assms(1) by (simp add: has_shape_def)
  have "transpose A = map (\<lambda>i. map (\<lambda>j. A ! j ! i) [0..<length A]) [0..<m]"
  proof (rule transpose_rectangle)
    assume "A = []" then show "m = 0" using len assms(2) by simp
  next
    fix i assume "i < length A"
    then show "length (A ! i) = m" using assms(1) len by (simp add: has_shape_nth)
  qed
  then show ?thesis by (simp add: len)
qed

lemma sum_list_upt: "sum_list (map f [0..<n]) = (\<Sum>i<n. f i)"
  by (simp add: interv_sum_list_conv_sum_set_nat atLeast0LessThan)

lemma np_sum0_eq:
  assumes "has_shape N K Q" and "0 < N"
  shows "np_sum0 Q = map (\<lambda>k. \<Sum>n<N. Q ! n ! k) [0..<K]"
  unfolding np_sum0_def transpose_has_shape[OF assms]
  by (simp add: sum_list_upt comp_def)

lemma np_dot_T_eq:
  assumes Q: "has_shape N K Q" and X: "has_shape N d X" and N: "0 < N"
  shows "np_dot (transpose Q) X = tab K d (\<lambda>k j. \<Sum>n<N. Q ! n ! k * X ! n ! j)"
proof -
  have "map2 (*) (map (\<lambda>n. Q ! n ! k) [0..<N]) (map (\<lambda>n. X ! n ! j) [0..<N])
          = map (\<lambda>n. Q ! n ! k * X ! n ! j) [0..<N]" for k j
    by (simp add: zip_map_map zip_same_conv_map comp_def)
  then show ?thesis
    unfolding np_dot_def tab_def transpose_has_shape[OF Q N] transpose_has_shape[OF X N]
    by (simp add: sum_list_upt comp_def)
qed

lemma has_shape_tab: "has_shape K d A \<Longrightarrow> A = tab K d (\<lambda>k j. A ! k ! j)"
  unfolding tab_def has_shape_def
  by (auto intro!: nth_equalityI simp: list_all_length)

lemma map2_upt: "map2 f (map g [0..<n]) (map h [0..<n]) = map (\<lambda>i. f (g i) (h i)) [0..<n]"
  by (simp add: zip_map_map zip_same_conv_map comp_def)

lemma tab_ops:
  "mat_sub (tab K d f) (tab K d g) = tab K d (\<lambda>k j. f k j - g k j)"
  "mat_add (tab K d f) (tab K d g) = tab K d (\<lambda>k j. f k j + g k j)"
  "mat_mul (tab K d f) (tab K d g) = tab K d (\<lambda>k j. f k j * g k j)"
  "mat_neg (tab K d f) = tab K d (\<lambda>k j. - f k j)"
  "mat_scale c (tab K d f) = tab K d (\<lambda>k j. c * f k j)"
  "mat_div (tab K d f) N = tab K d (\<lambda>k j. f k j / real N)"
  "np_square (tab K d f) = tab K d (\<lambda>k j. (f k j) ^ 2)"
  "col_times (map h [0..<K]) (tab K d f) = tab K d (\<lambda>k j. h k * f k j)"
  unfolding mat_sub_def mat_add_def mat_mul_def mat_neg_def mat_scale_def mat_div_def
    np_square_def col_times_def tab_def
  by (simp_all add: map2_upt comp_def)

lemma np_square_nth:
  "has_shape N d X \<Longrightarrow> n < N \<Longrightarrow> j < d \<Longrightarrow> np_square X ! n ! j = (X ! n ! j) ^ 2"
  by (simp add: np_square_def has_shape_def list_all_length)

lemma has_shape_square: "has_shape N d X \<Longrightarrow> has_shape N d (np_square X)"
  by (simp add: np_square_def has_shape_def list_all_length)


lemma length_concat_tab: "length (concat (tab K d f)) = K * d"
  by (induction K) (simp_all add: tab_def)

lemma tab_Suc: "tab (Suc K) d f = tab K d f @ [map (f K) [0..<d]]"
  by (simp add: tab_def)

lemma nth_concat_tab: "k < K \<Longrightarrow> j < d \<Longrightarrow> concat (tab K d f) ! (k * d + j) = f k j"
proof (induction K)
  case 0
  then show ?case by simp
next
  case (Suc K)
  show ?case
  proof (cases "k < K")
    case True
    then have "Suc k * d \<le> K * d"
      by (intro mult_le_mono1) simp
    then have "k * d + j < K * d"
      using Suc.prems(2) by simp
    then show ?thesis using Suc True by (simp add: tab_Suc nth_append length_concat_tab)
  next
    case False
    then have "k = K" using Suc.prems(1) by simp
    then show ?thesis using Suc.prems(2) by (simp add: tab_Suc nth_append length_concat_tab)
  qed
qed

lemma fisher_vector_eq:
  assumes xx: "has_shape N d xx" and N: "0 < N"
    and Q: "predict_proba sk g xx = Inr Q" and Qs: "has_shape N K Q"
    and w: "length (weights g) = K"
    and mu: "has_shape K d (means g)" and sg: "has_shape K d (covariances g)"
  shows "fisher_vector sk xx g =
           Inr (map (spec_d_pi Q g) [0..<K]
                @ concat (tab K d (spec_d_mu Q xx g))
                @ concat (tab K d (spec_d_sigma Q xx g)))"
proof -
  have lx: "length xx = N" and lq: "length Q = N"
    using xx Qs by (simp_all add: has_shape_def)
  have Qsum: "map (\<lambda>s. s / real N) (np_sum0 Q) = map (S0 Q) [0..<K]"
    by (simp add: np_sum0_eq[OF Qs N] S0_def[abs_def] lq comp_def)
  have Qxx: "mat_div (np_dot (transpose Q) xx) N = tab K d (S1 Q xx)"
    by (simp add: np_dot_T_eq[OF Qs xx N] tab_ops S1_def[abs_def] lq)
  have sq: "(\<Sum>n<N. Q ! n ! k * np_square xx ! n ! j) = (\<Sum>n<N. Q ! n ! k * (xx ! n ! j) ^ 2)"
    if "j < d" for k j
    using that by (intro sum.cong) (simp_all add: np_square_nth[OF xx])
  have Qxx2: "mat_div (np_dot (transpose Q) (np_square xx)) N = tab K d (S2 Q xx)"
    unfolding np_dot_T_eq[OF Qs has_shape_square[OF xx] N] tab_ops
    by (simp add: tab_def S2_def[abs_def] lq sq)
  have wt: "weights g = map (\<lambda>k. weights g ! k) [0..<K]"
    by (metis w map_nth)
  have dpi: "map2 (-) (map (S0 Q) [0..<K]) (weights g) = map (spec_d_pi Q g) [0..<K]"
    by (subst wt) (simp add: map2_upt spec_d_pi_def)
  define fm where "fm = (\<lambda>k j. means g ! k ! j)"
  define fc where "fc = (\<lambda>k j. covariances g ! k ! j)"
  have m: "means g = tab K d fm" and c: "covariances g = tab K d fc"
    unfolding fm_def fc_def by (rule has_shape_tab[OF mu], rule has_shape_tab[OF sg])
  have smu: "spec_d_mu Q xx g = (\<lambda>k j. S1 Q xx k j - S0 Q k * fm k j)"
    by (simp add: spec_d_mu_def[abs_def] fm_def)
  have ssg: "spec_d_sigma Q xx g =
      (\<lambda>k j. - S2 Q xx k j - S0 Q k * (fm k j) ^ 2 + S0 Q k * fc k j + 2 * S1 Q xx k j * fm k j)"
    by (simp add: spec_d_sigma_def[abs_def] fm_def fc_def)
  have dmu: "mat_sub (tab K d (S1 Q xx)) (col_times (map (S0 Q) [0..<K]) (means g))
               = tab K d (spec_d_mu Q xx g)"
    unfolding m smu tab_ops ..
  have dsg: "mat_add
                (mat_add
                  (mat_sub (mat_neg (tab K d (S2 Q xx))) (col_times (map (S0 Q) [0..<K]) (np_square (means g))))
                  (col_times (map (S0 Q) [0..<K]) (covariances g)))
                (mat_mul (mat_scale 2 (tab K d (S1 Q xx))) (means g))
               = tab K d (spec_d_sigma Q xx g)"
    unfolding m c ssg tab_ops ..
  show ?thesis
    unfolding fisher_vector_def Let_def lx Q bind_err.simps Qsum Qxx Qxx2 dpi dmu dsg ..
qed

lemma has_shape_replicate: "has_shape n m (replicate n (replicate m x))"
  by (simp add: has_shape_def list_all_iff)

text \<open>
  Claim C1. For a descriptor matrix of \<open>N\<close> rows and \<open>d\<close> columns and a mixture of
  \<open>K\<close> components over dimension \<open>d\<close>, whose responsibilities the library returns
  as an \<open>N\<close> by \<open>K\<close> matrix, the Fisher encoder returns a vector of length
  \<open>K + 2 * K * d\<close>: first the \<open>K\<close> weight gradients, then the \<open>K * d\<close> mean gradients
  row by row, then the \<open>K * d\<close> variance gradients row by row. The witness is the case
  \<open>d = 48\<close> (from \<open>D = 96\<close>), \<open>K = 4\<close>, \<open>N = 50\<close>, of length 388. The matrix has at
  least one row: the library raises on a matrix without rows.
\<close>

theorem fisher_vector_layout:
  assumes "has_shape N d xx" and "0 < N"
    and "predict_proba sk g xx = Inr Q" and "has_shape N K Q"
    and "length (weights g) = K"
    and "has_shape K d (means g)" and "has_shape K d (covariances g)"
  shows "\<exists>fv. fisher_vector sk xx g = Inr fv
           \<and> length fv = K + 2 * K * d
           \<and> take K fv = map (spec_d_pi Q g) [0..<K]
           \<and> take (K * d) (drop K fv)
               = concat (map (\<lambda>k. map (spec_d_mu Q xx g k) [0..<d]) [0..<K])
           \<and> drop (K + K * d) fv
               = concat (map (\<lambda>k. map (spec_d_sigma Q xx g k) [0..<d]) [0..<K])"
proof -
  let ?a = "map (spec_d_pi Q g) [0..<K]"
  let ?b = "concat (tab K d (spec_d_mu Q xx g))"
  let ?c = "concat (tab K d (spec_d_sigma Q xx g))"
  have eq: "fisher_vector sk xx g = Inr (?a @ ?b @ ?c)"
    using assms by (rule fisher_vector_eq)
  have la: "length ?a = K" and lb: "length ?b = K * d" and lc: "length ?c = K * d"
    by (simp_all add: length_concat_tab)
  have "length (?a @ ?b @ ?c) = K + 2 * K * d"
    using la lb lc by simp
  moreover have "take K (?a @ ?b @ ?c) = ?a" using la by simp
  moreover have "take (K * d) (drop K (?a @ ?b @ ?c)) = ?b" using la lb by simp
  moreover have "drop (K + K * d) (?a @ ?b @ ?c) = ?c"
    using la lb by (simp add: drop_append)
  ultimately show ?thesis using eq unfolding tab_def by blast
qed

theorem fisher_vector_layout_witness:
  "\<exists>fv. fisher_vector (stub_sklearn (flat_gmm 4 48) (replicate 50 (replicate 4 (1 / 4))))
           (replicate 50 (replicate 48 0)) (flat_gmm 4 48) = Inr fv
        \<and> length fv = 388"
proof -
  let ?sk = "stub_sklearn (flat_gmm 4 48) (replicate 50 (replicate 4 (1 / 4)))"
  have h1: "has_shape 50 48 (replicate 50 (replicate 48 0))" by (rule has_shape_replicate)
  have h2: "(0::nat) < 50" by simp
  have h3: "predict_proba ?sk (flat_gmm 4 48) (replicate 50 (replicate 48 0))
              = Inr (replicate 50 (replicate 4 (1 / 4)))"
    by (simp add: stub_sklearn_def)
  have h4: "has_shape 50 4 (replicate 50 (replicate 4 (1 / 4)))" by (rule has_shape_replicate)
  have h5: "length (weights (flat_gmm 4 48)) = 4" by (simp add: flat_gmm_def)
  have h6: "has_shape 4 48 (means (flat_gmm 4 48))"
    by (simp add: flat_gmm_def has_shape_replicate)
  have h7: "has_shape 4 48 (covariances (flat_gmm 4 48))"
    by (simp add: flat_gmm_def has_shape_replicate)
  from fisher_vector_layout[OF h1 h2 h3 h4 h5 h6 h7] show ?thesis by auto
qed

text \<open>
  Claim C2. With \<open>Q\<close> the responsibilities of the mixture on \<open>X\<close>, the entries of the
  returned vector are the gradients of the specification:
  \<open>d_pi[k] = S0[k] - pi[k]\<close>, \<open>d_mu[k,j] = S1[k,j] - S0[k] * mu[k,j]\<close> and
  \<open>d_sigma[k,j] = - S2[k,j] - S0[k] * mu[k,j]\<^sup>2 + S0[k] * sigma2[k,j] + 2 * S1[k,j] * mu[k,j]\<close>,
  where \<open>S0\<close>, \<open>S1\<close>, \<open>S2\<close> are the means over the \<open>N\<close> rows of \<open>Q[n,k]\<close>,
  \<open>Q[n,k] * X[n,j]\<close> and \<open>Q[n,k] * X[n,j]\<^sup>2\<close>. Arithmetic is over the real numbers.
\<close>

theorem fisher_vector_gradients:
  assumes "has_shape N d xx" and "0 < N"
    and "predict_proba sk g xx = Inr Q" and "has_shape N K Q"
    and "length (weights g) = K"
    and "has_shape K d (means g)" and "has_shape K d (covariances g)"
  shows "\<exists>fv. fisher_vector sk xx g = Inr fv
           \<and> (\<forall>k<K. fv ! k = S0 Q k - weights g ! k)
           \<and> (\<forall>k<K. \<forall>j<d. fv ! (K + k * d + j) = S1 Q xx k j - S0 Q k * means g ! k ! j)
           \<and> (\<forall>k<K. \<forall>j<d. fv ! (K + K * d + k * d + j)
                 = - S2 Q xx k j - S0 Q k * (means g ! k ! j) ^ 2
                   + S0 Q k * covariances g ! k ! j + 2 * S1 Q xx k j * means g ! k ! j)"
proof -
  let ?a = "map (spec_d_pi Q g) [0..<K]"
  let ?b = "concat (tab K d (spec_d_mu Q xx g))"
  let ?c = "concat (tab K d (spec_d_sigma Q xx g))"
  have eq: "fisher_vector sk xx g = Inr (?a @ ?b @ ?c)"
    using assms by (rule fisher_vector_eq)
  have la: "length ?a = K" and lb: "length ?b = K * d"
    by (simp_all add: length_concat_tab)
  have p1: "(?a @ ?b @ ?c) ! k = S0 Q k - weights g ! k" if "k < K" for k
    using that by (simp add: nth_append spec_d_pi_def)
  have p2: "(?a @ ?b @ ?c) ! (K + k * d + j) = S1 Q xx k j - S0 Q k * means g ! k ! j"
    if "k < K" "j < d" for k j
  proof -
    have "Suc k * d \<le> K * d" using that(1) by (intro mult_le_mono1) simp
    then have lt: "k * d + j < K * d" using that(2) by simp
    have "(?a @ ?b @ ?c) ! (K + k * d + j) = (?b @ ?c) ! (k * d + j)"
      using la by (simp add: nth_append add.assoc)
    also have "\<dots> = ?b ! (k * d + j)" using lt lb by (simp add: nth_append)
    also have "\<dots> = spec_d_mu Q xx g k j" using that by (rule nth_concat_tab)
    finally show ?thesis by (simp add: spec_d_mu_def)
  qed
  have p3: "(?a @ ?b @ ?c) ! (K + K * d + k * d + j)
                 = - S2 Q xx k j - S0 Q k * (means g ! k ! j) ^ 2
                   + S0 Q k * covariances g ! k ! j + 2 * S1 Q xx k j * means g ! k ! j"
    if "k < K" "j < d" for k j
  proof -
    have "(?a @ ?b @ ?c) ! (K + K * d + k * d + j) = (?b @ ?c) ! (K * d + (k * d + j))"
      using la by (simp add: nth_append add.assoc)
    also have "\<dots> = ?c ! (k * d + j)" using lb by (simp add: nth_append)
    also have "\<dots> = spec_d_sigma Q xx g k j" using that by (rule nth_concat_tab)
    finally show ?thesis by (simp add: spec_d_sigma_def)
  qed
  show ?thesis using eq p1 p2 p3 by blast
qed


theorem fisher_vector_gradients_witness:
  "\<exists>fv. fisher_vector (stub_sklearn toy_gmm toy_Q) toy_xx toy_gmm = Inr fv
        \<and> fv ! 0 = 0 \<and> fv ! 1 = 0 \<and> fv ! 2 = 1 / 2 \<and> fv ! 3 = 0
        \<and> fv ! 4 = - 1 / 4 \<and> fv ! 5 = 1 / 4"
proof -
  have h1: "has_shape 2 1 toy_xx" by (simp add: has_shape_def toy_xx_def)
  have h2: "(0::nat) < 2" by simp
  have h3: "predict_proba (stub_sklearn toy_gmm toy_Q) toy_gmm toy_xx = Inr toy_Q"
    by (simp add: stub_sklearn_def)
  have h4: "has_shape 2 2 toy_Q" by (simp add: has_shape_def toy_Q_def)
  have h5: "length (weights toy_gmm) = 2" by (simp add: toy_gmm_def)
  have h6: "has_shape 2 1 (means toy_gmm)" by (simp add: has_shape_def toy_gmm_def)
  have h7: "has_shape 2 1 (covariances toy_gmm)" by (simp add: has_shape_def toy_gmm_def)
  from fisher_vector_gradients[OF h1 h2 h3 h4 h5 h6 h7] obtain fv where
    run: "fisher_vector (stub_sklearn toy_gmm toy_Q) toy_xx toy_gmm = Inr fv"
    and pi: "\<forall>k<2. fv ! k = S0 toy_Q k - weights toy_gmm ! k"
    and mu: "\<forall>k<2. \<forall>j<1. fv ! (2 + k * 1 + j)
               = S1 toy_Q toy_xx k j - S0 toy_Q k * means toy_gmm ! k ! j"
    and sg: "\<forall>k<2. \<forall>j<1. fv ! (2 + 2 * 1 + k * 1 + j)
               = - S2 toy_Q toy_xx k j - S0 toy_Q k * (means toy_gmm ! k ! j) ^ 2
                 + S0 toy_Q k * covariances toy_gmm ! k ! j
                 + 2 * S1 toy_Q toy_xx k j * means toy_gmm ! k ! j"
    by blast
  have two: "{..<2::nat} = {0, 1}" by auto
  have s0: "S0 toy_Q 0 = 3 / 4" "S0 toy_Q 1 = 1 / 4"
    by (simp_all add: S0_def toy_Q_def two)
  have s1: "S1 toy_Q toy_xx 0 0 = 5 / 4" "S1 toy_Q toy_xx 1 0 = 3 / 4"
    by (simp_all add: S1_def toy_Q_def toy_xx_def two)
  have s2: "S2 toy_Q toy_xx 0 0 = 11 / 4" "S2 toy_Q toy_xx 1 0 = 9 / 4"
    by (simp_all add: S2_def toy_Q_def toy_xx_def two)
  note vals = s0 s1 s2 s0[unfolded One_nat_def] s1[unfolded One_nat_def] s2[unfolded One_nat_def]
  have "fv ! 0 = 0" "fv ! 1 = 0"
    using pi[rule_format, of 0] pi[rule_format, of 1] by (simp_all add: vals toy_gmm_def)
  moreover have "fv ! 2 = 1 / 2" "fv ! 3 = 0"
    using mu[rule_format, of 0 0] mu[rule_format, of 1 0]
    by (simp_all add: vals toy_gmm_def)
  moreover have "fv ! 4 = - 1 / 4" "fv ! 5 = 1 / 4"
    using sg[rule_format, of 0 0] sg[rule_format, of 1 0]
    by (simp_all add: vals toy_gmm_def)
  ultimately show ?thesis using run by blast
qed

section \<open>The channel pipeline\<close>

lemma fisher_vector_length:
  assumes "has_shape N d xx" and "0 < N"
    and "predict_proba sk g xx = Inr Q" and "has_shape N K Q"
    and "length (weights g) = K"
    and "has_shape K d (means g)" and "has_shape K d (covariances g)"
  shows "\<exists>fv. fisher_vector sk xx g = Inr fv \<and> length fv = K + 2 * K * d"
  unfolding fisher_vector_eq[OF assms] by (simp add: length_concat_tab)

lemma rows_of_matrix:
  assumes "rect a" and "shape a = [N, D]" and "0 < N"
  shows "has_shape N D (rows_of a)"
proof -
  obtain y ys where a: "a = Arr (y # ys)"
    using assms(2,3) by (cases a rule: shape.cases) auto
  have "\<forall>x\<in>set (y # ys). rect x \<and> shape x = [D]"
    using assms(1,2) a by (auto simp: list_all_iff)
  then have "\<forall>x\<in>set (y # ys). length (ravel x) = D"
    by (auto simp: length_ravel)
  then show ?thesis using assms(2) a by (auto simp: has_shape_def list_all_iff)
qed

lemma fisher_descriptor_length:
  assumes "rect descriptor" and "shape descriptor = [N, D]" and "0 < N"
    and "pca_fit_transform sk (D div 2) (rows_of descriptor) = Inr Y"
    and "has_shape N (D div 2) Y"
    and "gmm_fit sk K Y = Inr g"
    and "length (weights g) = K"
    and "has_shape K (D div 2) (means g)" and "has_shape K (D div 2) (covariances g)"
    and "predict_proba sk g Y = Inr Q" and "has_shape N K Q"
  shows "\<exists>fv. fisher_descriptor sk K descriptor = Inr fv \<and> length fv = K + 2 * K * (D div 2)"
proof -
  have "fisher_descriptor sk K descriptor = fisher_vector sk Y g"
    using assms(4,6) by (simp add: fisher_descriptor_matrix[OF assms(2)])
  then show ?thesis
    using fisher_vector_length[OF assms(5) assms(3) assms(10) assms(11) assms(7) assms(8) assms(9)]
    by simp
qed

text \<open>
  Claim C10. The pipeline has no check that the width \<open>D\<close> is even. For an odd \<open>D\<close>
  it asks the library for \<open>(D - 1) div 2\<close> components on the rows of the matrix, fits
  the mixture on the reduced matrix \<open>Y\<close> and returns \<^verbatim>\<open>fisher_vector\<close> of \<open>Y\<close> and
  the mixture. When the library calls succeed with results of the shapes they were
  asked for, that is the vector of the gradients of the specification over \<open>Y\<close>, of
  length \<open>K + 2 * K * ((D - 1) div 2)\<close>. (For \<open>D = 1\<close> the library is asked for no
  component at all; the hypotheses then say that it answered.)
\<close>

theorem fisher_descriptor_odd_width:
  assumes "odd D"
    and "rect descriptor" and "shape descriptor = [N, D]" and "0 < N"
    and "pca_fit_transform sk (D div 2) (rows_of descriptor) = Inr Y"
    and "has_shape N (D div 2) Y"
    and "gmm_fit sk K Y = Inr g"
    and "length (weights g) = K"
    and "has_shape K (D div 2) (means g)" and "has_shape K (D div 2) (covariances g)"
    and "predict_proba sk g Y = Inr Q" and "has_shape N K Q"
  shows "fisher_descriptor sk K descriptor
           = bind_err (pca_fit_transform sk ((D - 1) div 2) (rows_of descriptor))
               (\<lambda>descriptor_pca.
                  bind_err (gmm_fit sk K descriptor_pca) (\<lambda>g.
                  fisher_vector sk descriptor_pca g))
       \<and> has_shape N ((D - 1) div 2) Y
       \<and> fisher_descriptor sk K descriptor = fisher_vector sk Y g
       \<and> (\<exists>fv. fisher_descriptor sk K descriptor = Inr fv
             \<and> length fv = K + 2 * K * ((D - 1) div 2)
             \<and> fv = map (spec_d_pi Q g) [0..<K]
                    @ concat (map (\<lambda>k. map (spec_d_mu Q Y g k) [0..<(D - 1) div 2]) [0..<K])
                    @ concat (map (\<lambda>k. map (spec_d_sigma Q Y g k) [0..<(D - 1) div 2]) [0..<K]))"
proof -
  have half: "D div 2 = (D - 1) div 2"
    using assms(1) by (auto elim!: oddE)
  have call: "fisher_descriptor sk K descriptor
           = bind_err (pca_fit_transform sk (D div 2) (rows_of descriptor))
               (\<lambda>descriptor_pca.
                  bind_err (gmm_fit sk K descriptor_pca) (\<lambda>g.
                  fisher_vector sk descriptor_pca g))"
    by (rule fisher_descriptor_matrix[OF assms(3)])
  then have run: "fisher_descriptor sk K descriptor = fisher_vector sk Y g"
    using assms(5,7) by simp
  have val: "fisher_vector sk Y g
           = Inr (map (spec_d_pi Q g) [0..<K]
                @ concat (tab K (D div 2) (spec_d_mu Q Y g))
                @ concat (tab K (D div 2) (spec_d_sigma Q Y g)))"
    by (rule fisher_vector_eq[OF assms(6) assms(4) assms(11) assms(12) assms(8) assms(9) assms(10)])
  have len: "length (map (spec_d_pi Q g) [0..<K]
                @ concat (tab K (D div 2) (spec_d_mu Q Y g))
                @ concat (tab K (D div 2) (spec_d_sigma Q Y g))) = K + 2 * K * (D div 2)"
    by (simp add: length_concat_tab)
  show ?thesis
    using call run val len assms(6) unfolding half tab_def by simp
qed

theorem fisher_descriptor_odd_width_witness:
  "fisher_descriptor (stub_sklearn (flat_gmm 2 1) half_Q) 2 odd_batch
     = Inr [0, 0, 5 / 4, 5 / 4, - 15 / 4, - 15 / 4]"
proof -
  let ?sk = "stub_sklearn (flat_gmm 2 1) half_Q"
  have h1: "odd (3::nat)" by simp
  have h2: "rect odd_batch" by (simp add: odd_batch_def)
  have h3: "shape odd_batch = [2, 3]" by (simp add: odd_batch_def)
  have h4: "(0::nat) < 2" by simp
  have h5: "pca_fit_transform ?sk (3 div 2) (rows_of odd_batch) = Inr [[1], [4]]"
    by (simp add: stub_sklearn_def odd_batch_def)
  have h6: "has_shape 2 (3 div 2) [[1], [4]]" by (simp add: has_shape_def)
  have h7: "gmm_fit ?sk 2 [[1], [4]] = Inr (flat_gmm 2 1)" by (simp add: stub_sklearn_def)
  have h8: "length (weights (flat_gmm 2 1)) = 2" by (simp add: flat_gmm_def)
  have h9: "has_shape 2 (3 div 2) (means (flat_gmm 2 1))"
    using has_shape_replicate[of 2 1 0] by (simp add: flat_gmm_def)
  have h10: "has_shape 2 (3 div 2) (covariances (flat_gmm 2 1))"
    using has_shape_replicate[of 2 1 1] by (simp add: flat_gmm_def)
  have h11: "predict_proba ?sk (flat_gmm 2 1) [[1], [4]] = Inr half_Q"
    by (simp add: stub_sklearn_def)
  have h12: "has_shape 2 2 half_Q" by (simp add: has_shape_def half_Q_def)
  from fisher_descriptor_odd_width[OF h1 h2 h3 h4 h5 h6 h7 h8 h9 h10 h11 h12]
  have "fisher_descriptor ?sk 2 odd_batch = fisher_vector ?sk [[1], [4]] (flat_gmm 2 1)"
    by blast
  also have "\<dots> = Inr [0, 0, 5 / 4, 5 / 4, - 15 / 4, - 15 / 4]"
    by code_simp
  finally show ?thesis .
qed

section \<open>The run on an empty directory\<close>

text \<open>
  Claim C5. With the configuration of the module and an empty data directory the run
  prints the message and then raises UnboundLocalError: the statements that save the
  tables stand after the \<^verbatim>\<open>if\<close>/\<^verbatim>\<open>else\<close> and read \<^verbatim>\<open>hog_df\<close>, which only the
  \<^verbatim>\<open>else\<close> branch binds.
\<close>

theorem main_empty_directory:
  "main sk (src\<lparr> listdir := [] \<rparr>) module_config w
     = Inl (UnboundLocalError, w\<lparr> printed := printed w @ [NoInput] \<rparr>)"
  by (simp add: main_def module_config_def)

section \<open>A video without trajectories\<close>

lemma read_hog_empty: "read_hog [] = Inr (Arr [])"
  by (simp add: read_hog_def np_array_def)

lemma read_hof_empty: "read_hof [] = Inr (Arr [])"
  by (simp add: read_hof_def np_array_def)

lemma read_mbh_empty: "read_mbh [] = Inr (Arr [], Arr [])"
  by (simp add: read_mbh_def np_array_def)

lemma fisher_descriptor_empty: "fisher_descriptor sk k (Arr []) = Inl IndexError"
  by (simp add: fisher_descriptor_def flatten_rows_def ndim_def shape_at_def)

lemma channels_empty_batch:
  assumes "HOG_FISHER_VECTOR cfg \<or> HOF_FISHER_VECTOR cfg \<or> MBH_FISHER_VECTOR cfg"
  shows "bind_err (hog_step sk cfg name [] t) (\<lambda>t.
         bind_err (hof_step sk cfg name [] t) (\<lambda>t.
         mbh_step sk cfg name [] t)) = Inl IndexError"
  using assms
  by (auto simp: hog_step_def hof_step_def mbh_step_def read_hog_empty read_hof_empty
        read_mbh_empty fisher_descriptor_empty)

lemma process_video_empty_batch:
  assumes "HOG_FISHER_VECTOR cfg \<or> HOF_FISHER_VECTOR cfg \<or> MBH_FISHER_VECTOR cfg"
    and "densetrack src (read_video src file) = Inr []"
  shows "process_video sk src cfg i file (w, t)
           = Inl (IndexError,
                  w\<lparr> printed := printed w @ [Separator, Running file (shape (read_video src file))] \<rparr>)"
  using assms(1) unfolding process_video_def
  by (simp add: Let_def assms(2) channels_empty_batch[OF assms(1)])

section \<open>What a completed run leaves\<close>

lemma bind_err_Inr_iff: "bind_err m f = Inr y \<longleftrightarrow> (\<exists>x. m = Inr x \<and> f x = Inr y)"
  by (cases m) auto

lemma raise_in_Inr_iff: "raise_in w m = Inr y \<longleftrightarrow> m = Inr y"
  by (cases m) auto

subsection \<open>The loop\<close>

lemma steps_result:
  assumes "bind_err (hog_step sk cfg name tracks t) (\<lambda>t.
           bind_err (hof_step sk cfg name tracks t) (\<lambda>t.
           mbh_step sk cfg name tracks t)) = Inr t'"
  shows "if enabled cfg c
         then \<exists>fv. channel_fv sk (K_const cfg) c tracks = Inr fv
                \<and> table t' c = add_row_to_table (table t c) name fv
         else table t' c = table t c"
proof -
  from assms obtain t1 t2 where
    s1: "hog_step sk cfg name tracks t = Inr t1"
    and s2: "hof_step sk cfg name tracks t1 = Inr t2"
    and s3: "mbh_step sk cfg name tracks t2 = Inr t'"
    by (auto simp: bind_err_Inr_iff)
  have h1: "if HOG_FISHER_VECTOR cfg
            then \<exists>fv. channel_fv sk (K_const cfg) HOG tracks = Inr fv
                   \<and> t1 = t\<lparr> hog_df := add_row_to_table (hog_df t) name fv \<rparr>
            else t1 = t"
    using s1 by (auto simp: hog_step_def bind_err_Inr_iff split: if_splits)
  have h2: "if HOF_FISHER_VECTOR cfg
            then \<exists>fv. channel_fv sk (K_const cfg) HOF tracks = Inr fv
                   \<and> t2 = t1\<lparr> hof_df := add_row_to_table (hof_df t1) name fv \<rparr>
            else t2 = t1"
    using s2 by (auto simp: hof_step_def bind_err_Inr_iff split: if_splits)
  have h3: "if MBH_FISHER_VECTOR cfg
            then \<exists>fv. channel_fv sk (K_const cfg) MBH tracks = Inr fv
                   \<and> t' = t2\<lparr> mbh_df := add_row_to_table (mbh_df t2) name fv \<rparr>
            else t' = t2"
    using s3 by (auto simp: mbh_step_def bind_err_Inr_iff Let_def split: if_splits prod.splits)
  show ?thesis
    using h1 h2 h3 by (cases c) (auto split: if_splits)
qed

lemma process_video_result:
  assumes "process_video sk src cfg i file (w, t) = Inr (w', t')"
    and "enabled cfg c0"
  shows "files w' = files w"
    and "if enabled cfg c
         then \<exists>fv. file_fv sk src cfg c file = Inr fv
                \<and> table t' c = add_row_to_table (table t c) (name_of file) fv
         else table t' c = table t c"
proof -
  have fl: "HOG_FISHER_VECTOR cfg \<or> HOF_FISHER_VECTOR cfg \<or> MBH_FISHER_VECTOR cfg"
    using assms(2) by (cases c0) auto
  from assms(1) obtain tracks where
    tr: "densetrack src (read_video src file) = Inr tracks"
    and st: "bind_err (hog_step sk cfg (name_of file) tracks t) (\<lambda>t.
             bind_err (hof_step sk cfg (name_of file) tracks t) (\<lambda>t.
             mbh_step sk cfg (name_of file) tracks t)) = Inr t'"
    and w': "files w' = files w"
    unfolding process_video_def name_of_def using fl
    by (auto simp: Let_def bind_err_Inr_iff raise_in_Inr_iff)
  show "files w' = files w" by (rule w')
  show "if enabled cfg c
         then \<exists>fv. file_fv sk src cfg c file = Inr fv
                \<and> table t' c = add_row_to_table (table t c) (name_of file) fv
         else table t' c = table t c"
    using steps_result[OF st, of c] by (simp add: file_fv_def tr)
qed

lemma corpus_loop_result:
  assumes "corpus_loop sk src cfg (enumerate n fs) (w, t) = Inr (w', t')"
    and "enabled cfg c0"
  shows "files w' = files w
       \<and> (if enabled cfg c
          then \<exists>fvs. map (file_fv sk src cfg c) fs = map Inr fvs
                 \<and> table t' c = add_rows (zip fs fvs) (table t c)
          else table t' c = table t c)"
  using assms(1)
proof (induction fs arbitrary: n w t)
  case Nil
  then show ?case by (simp add: add_rows_def)
next
  case (Cons f fs)
  from Cons.prems obtain w1 t1 where
    p: "process_video sk src cfg n f (w, t) = Inr (w1, t1)"
    and l: "corpus_loop sk src cfg (enumerate (Suc n) fs) (w1, t1) = Inr (w', t')"
    by (auto simp: bind_err_Inr_iff)
  note pv1 = process_video_result(1)[OF p assms(2)]
  note pv2 = process_video_result(2)[OF p assms(2), of c]
  note ih = Cons.IH[OF l]
  show ?case
  proof (cases "enabled cfg c")
    case True
    from pv2 True obtain fv where
      fv: "file_fv sk src cfg c f = Inr fv"
      and t1: "table t1 c = add_row_to_table (table t c) (name_of f) fv" by auto
    from ih True obtain fvs where
      fvs: "map (file_fv sk src cfg c) fs = map Inr fvs"
      and t': "table t' c = add_rows (zip fs fvs) (table t1 c)" by auto
    have "map (file_fv sk src cfg c) (f # fs) = map Inr (fv # fvs)"
      using fv fvs by simp
    moreover have "table t' c = add_rows (zip (f # fs) (fv # fvs)) (table t c)"
      using t' t1 by (simp add: add_rows_def)
    ultimately show ?thesis using ih pv1 True by metis
  next
    case False
    then show ?thesis using ih pv1 pv2 by simp
  qed
qed

subsection \<open>Appending rows\<close>

lemma last_str_nat: "last (str_nat n) = ''0123456789'' ! (n mod 10)"
  by (subst str_nat.simps) simp

lemma digit_not_e: "d < 10 \<Longrightarrow> ''0123456789'' ! d \<noteq> CHR ''e''"
proof -
  assume "d < 10"
  then have "d \<in> {0, 1, 2, 3, 4, 5, 6, 7, 8, 9}" by auto
  then show ?thesis by (auto simp: nth_Cons')
qed

lemma str_nat_not_name: "str_nat i \<noteq> ''name''"
proof
  assume "str_nat i = ''name''"
  then have "last (str_nat i) = CHR ''e''" by simp
  then show False using digit_not_e[of "i mod 10"] by (simp add: last_str_nat)
qed

lemma fold_update_name:
  "fold (\<lambda>(i, val) m. m(str_nat i \<mapsto> Num val)) xs m ''name'' = m ''name''"
  by (induction xs arbitrary: m) (auto simp: str_nat_not_name str_nat_not_name[THEN not_sym])

lemma hd_row_of: "hd (row_of (''name'' # cols) name features) = Name name"
  by (simp add: row_of_def fold_update_name)

lemma length_row_of: "length (row_of cols name features) = length cols"
  by (simp add: row_of_def)

lemma add_row_empty:
  "df_empty df \<Longrightarrow> add_row_to_table df name features =
     \<lparr> columns = ''name'' # map str_nat [0..<length features],
       rows = [row_of (''name'' # map str_nat [0..<length features]) name features] \<rparr>"
  by (simp add: add_row_to_table_def Let_def row_of_def)

lemma add_row_nonempty:
  "\<not> df_empty df \<Longrightarrow> add_row_to_table df name features =
     df\<lparr> rows := rows df @ [row_of (columns df) name features] \<rparr>"
  by (simp add: add_row_to_table_def Let_def row_of_def)

lemma named_not_empty: "named df \<Longrightarrow> \<not> df_empty df"
  by (auto simp: named_def df_empty_def)

lemma add_rows_named:
  "named df \<Longrightarrow>
     named (add_rows rs df) \<and> columns (add_rows rs df) = columns df
     \<and> map hd (rows (add_rows rs df)) = map hd (rows df) @ map (\<lambda>(file, fv). Name (name_of file)) rs
     \<and> length (rows (add_rows rs df)) = length (rows df) + length rs"
proof (induction rs arbitrary: df)
  case Nil
  then show ?case by (simp add: add_rows_def)
next
  case (Cons r rs)
  obtain fl fv where r: "r = (fl, fv)" by (cases r)
  let ?df = "add_row_to_table df (name_of fl) fv"
  obtain cols where cols: "columns df = ''name'' # cols" using Cons.prems by (auto simp: named_def)
  have eq: "?df = df\<lparr> rows := rows df @ [row_of (columns df) (name_of fl) fv] \<rparr>"
    using Cons.prems by (intro add_row_nonempty named_not_empty)
  have n: "named ?df" unfolding eq using cols by (simp add: named_def)
  have step: "add_rows (r # rs) df = add_rows rs ?df" by (simp add: add_rows_def r)
  have "map hd (rows ?df) = map hd (rows df) @ [Name (name_of fl)]"
    unfolding eq using hd_row_of[of cols] by (simp add: cols)
  moreover have "columns ?df = columns df" "length (rows ?df) = Suc (length (rows df))"
    unfolding eq by simp_all
  ultimately show ?case using Cons.IH[OF n] unfolding step by (simp add: r)
qed

lemma add_rows_new_frame:
  assumes "rs \<noteq> []"
  shows "columns (add_rows rs new_frame) = ''name'' # map str_nat [0..<length (snd (hd rs))]"
    and "map hd (rows (add_rows rs new_frame)) = map (\<lambda>(file, fv). Name (name_of file)) rs"
    and "length (rows (add_rows rs new_frame)) = length rs"
    and "\<not> df_empty (add_rows rs new_frame)"
proof -
  obtain fl fv rs' where rs: "rs = (fl, fv) # rs'" using assms by (cases rs) auto
  let ?df = "add_row_to_table new_frame (name_of fl) fv"
  have e: "df_empty new_frame" by (simp add: df_empty_def new_frame_def)
  note eq = add_row_empty[OF e, of "name_of fl" fv]
  have n: "named ?df" unfolding eq by (simp add: named_def)
  have step: "add_rows rs new_frame = add_rows rs' ?df" by (simp add: add_rows_def rs)
  have hd1: "map hd (rows ?df) = [Name (name_of fl)]"
    unfolding eq using hd_row_of by simp
  note r = add_rows_named[OF n, of rs']
  show "columns (add_rows rs new_frame) = ''name'' # map str_nat [0..<length (snd (hd rs))]"
    unfolding step using r by (simp add: eq rs)
  show "map hd (rows (add_rows rs new_frame)) = map (\<lambda>(file, fv). Name (name_of file)) rs"
    unfolding step using r hd1 by (simp add: rs)
  show "length (rows (add_rows rs new_frame)) = length rs"
    unfolding step using r by (simp add: eq rs)
  show "\<not> df_empty (add_rows rs new_frame)"
    unfolding step using r by (intro named_not_empty) simp
qed

subsection \<open>The sorted listing\<close>

lemma map_err_Inr_iff: "map_err f xs = Inr ys \<longleftrightarrow> list_all2 (\<lambda>x y. f x = Inr y) xs ys"
proof (induction xs arbitrary: ys)
  case Nil
  then show ?case by auto
next
  case (Cons x xs)
  show ?case
    by (cases ys) (auto simp: bind_err_Inr_iff Cons.IH list_all2_Cons1)
qed

lemma key_lt_alternating:
  "alternating a \<Longrightarrow> alternating b \<Longrightarrow> key_lt a b = Inr (a < b)"
proof (induction a arbitrary: b rule: alternating.induct)
  case (1 s)
  then show ?case by (cases b rule: alternating.cases) auto
next
  case (2 s n r)
  then show ?case by (cases b rule: alternating.cases) auto
qed simp_all

lemma convert_text:
  assumes "\<forall>c\<in>set text. \<not> is_ascii_digit c" and "convert text = Inr k"
  shows "\<exists>s. k = KStr s"
proof (cases "text = []")
  case True
  then show ?thesis using assms(2) by (auto simp: convert_def)
next
  case False
  then have "\<not> list_all is_ascii_digit text"
    using assms(1) by (cases "text") auto
  then show ?thesis using assms(2) by (auto simp: convert_def split: if_splits)
qed

lemma convert_digits:
  assumes "text \<noteq> []" and "\<forall>c\<in>set text. is_ascii_digit c"
  shows "convert text = Inr (KInt (py_int text))"
  using assms by (auto simp: convert_def list_all_iff py_isdigit_def)

lemma alternating_alphanum_key: "alphanum_key s = Inr k \<Longrightarrow> alternating k"
  unfolding alphanum_key_def
proof (induction s arbitrary: k rule: re_split.induct)
  case (1 s)
  let ?text = "takeWhile (\<lambda>c. \<not> is_ascii_digit c) s"
  let ?r = "dropWhile (\<lambda>c. \<not> is_ascii_digit c) s"
  have nd: "\<forall>c\<in>set ?text. \<not> is_ascii_digit c" by (auto dest: set_takeWhileD)
  show ?case
  proof (cases "?r = []")
    case True
    then have "re_split s = [?text]" by (subst re_split.simps) (simp add: Let_def)
    then obtain k0 where "convert ?text = Inr k0" "k = [k0]"
      using "1.prems" by (auto simp: bind_err_Inr_iff)
    then show ?thesis using convert_text[OF nd] by auto
  next
    case False
    let ?num = "takeWhile is_ascii_digit ?r"
    let ?rest = "dropWhile is_ascii_digit ?r"
    have rs: "re_split s = ?text # ?num # re_split ?rest"
      using False by (subst re_split.simps) (simp add: Let_def)
    have "is_ascii_digit (hd ?r)" using hd_dropWhile[OF False] by simp
    then have ne: "?num \<noteq> []" using False by (cases ?r) auto
    have dg: "\<forall>c\<in>set ?num. is_ascii_digit c" by (auto dest: set_takeWhileD)
    from "1.prems" obtain k0 k1 ks where
      c0: "convert ?text = Inr k0" and c1: "convert ?num = Inr k1"
      and cr: "map_err convert (re_split ?rest) = Inr ks" and k: "k = k0 # k1 # ks"
      unfolding rs by (auto simp: bind_err_Inr_iff)
    have "alternating ks" using "1.IH"[OF refl refl False cr] .
    moreover obtain t where "k0 = KStr t" using convert_text[OF nd c0] by auto
    moreover have "k1 = KInt (py_int ?num)" using convert_digits[OF ne dg] c1 by simp
    ultimately show ?thesis using k by simp
  qed
qed

lemma sorted_alphanumeric_Inr:
  assumes "sorted_alphanumeric data = Inr fs"
  shows "mset fs = mset data"
    and "\<exists>keys. map_err alphanum_key fs = Inr keys \<and> sorted keys
           \<and> sorted_wrt (\<lambda>a b. key_lt b a = Inr False) keys"
    and "length fs = length data"
proof -
  from assms obtain keys where
    ks: "map_err alphanum_key data = Inr keys"
    and fs: "fs = map snd (sort_key fst (zip keys data))"
    by (auto simp: sorted_alphanumeric_def bind_err_Inr_iff)
  let ?ps = "sort_key fst (zip keys data)"
  have l2: "list_all2 (\<lambda>x y. alphanum_key x = Inr y) data keys"
    using ks by (simp add: map_err_Inr_iff)
  then have len: "length data = length keys" by (rule list_all2_lengthD)
  have "mset (map snd ?ps) = image_mset snd (mset (zip keys data))" by simp
  also have "\<dots> = mset (map snd (zip keys data))" by simp
  also have "\<dots> = mset data" using len by simp
  finally show "mset fs = mset data" unfolding fs .
  then show "length fs = length data" by (metis size_mset)
  have pair: "\<forall>p\<in>set ?ps. alphanum_key (snd p) = Inr (fst p)"
  proof
    fix p assume "p \<in> set ?ps"
    then have "p \<in> set (zip keys data)" by simp
    then obtain i where "i < length data" "p = (keys ! i, data ! i)"
      using len by (auto simp: set_zip)
    then show "alphanum_key (snd p) = Inr (fst p)"
      using list_all2_nthD[OF l2, of i] by simp
  qed
  have k': "map_err alphanum_key fs = Inr (map fst ?ps)"
    unfolding fs map_err_Inr_iff using pair
    by (simp add: list_all2_map1 list_all2_map2 list_all2_same)
  have st: "sorted (map fst ?ps)" by (rule sorted_sort_key)
  have alt: "\<forall>k\<in>set (map fst ?ps). alternating k"
    using pair by (auto intro: alternating_alphanum_key)
  have "sorted_wrt (\<lambda>a b. key_lt b a = Inr False) (map fst ?ps)"
  proof (rule sorted_wrt_mono_rel[OF _ st])
    fix a b assume "a \<in> set (map fst ?ps)" "b \<in> set (map fst ?ps)" "a \<le> b"
    then have "alternating a" "alternating b" "\<not> b < a"
      using alt by (blast, blast, simp add: not_less)
    then show "key_lt b a = Inr False"
      by (simp add: key_lt_alternating)
  qed
  then show "\<exists>keys. map_err alphanum_key fs = Inr keys \<and> sorted keys
           \<and> sorted_wrt (\<lambda>a b. key_lt b a = Inr False) keys"
    using k' st by blast
qed

subsection \<open>The statements after the loop\<close>

lemma sorted_alphanumeric_Nil: "sorted_alphanumeric [] = Inr []"
  by (simp add: sorted_alphanumeric_def)

lemma table_new_tables: "table new_tables c = new_frame"
  by (cases c) (simp_all add: new_tables_def)

lemma main_Inr:
  assumes "main sk src cfg w = Inr w'" and "listdir src \<noteq> []"
  shows "\<exists>sorted_files w1 t.
           sorted_alphanumeric (listdir src) = Inr sorted_files
         \<and> corpus_loop sk src cfg (enumerate 0 sorted_files) (w, new_tables) = Inr (w1, t)
         \<and> printed w' = printed w1
         \<and> files w' =
             (if MBH_FISHER_VECTOR cfg then save_as_csv (mbh_df t) (csv_path MBH) else id)
             ((if HOF_FISHER_VECTOR cfg then save_as_csv (hof_df t) (csv_path HOF) else id)
             ((if HOG_FISHER_VECTOR cfg then save_as_csv (hog_df t) (csv_path HOG) else id)
               (files w1)))"
proof -
  from assms obtain sorted_files w1 t wa wb where
    so: "sorted_alphanumeric (listdir src) = Inr sorted_files"
    and lp: "corpus_loop sk src cfg (enumerate 0 sorted_files) (w, new_tables) = Inr (w1, t)"
    and s1: "(if HOG_FISHER_VECTOR cfg
              then save_local w1 (map_option hog_df (Some t)) ''features/hog_features.csv''
              else Inr w1) = Inr wa"
    and s2: "(if HOF_FISHER_VECTOR cfg
              then save_local wa (map_option hof_df (Some t)) ''features/hof_features.csv''
              else Inr wa) = Inr wb"
    and s3: "(if MBH_FISHER_VECTOR cfg
              then save_local wb (map_option mbh_df (Some t)) ''features/mbh_features.csv''
              else Inr wb) = Inr w'"
    unfolding main_def new_tables_def
    by (auto simp: bind_err_Inr_iff raise_in_Inr_iff simp del: save_local.simps)
  have "printed w' = printed w1
         \<and> files w' =
             (if MBH_FISHER_VECTOR cfg then save_as_csv (mbh_df t) (csv_path MBH) else id)
             ((if HOF_FISHER_VECTOR cfg then save_as_csv (hof_df t) (csv_path HOF) else id)
             ((if HOG_FISHER_VECTOR cfg then save_as_csv (hog_df t) (csv_path HOG) else id)
               (files w1)))"
    using s1 s2 s3
    by (cases "HOG_FISHER_VECTOR cfg"; cases "HOF_FISHER_VECTOR cfg"; cases "MBH_FISHER_VECTOR cfg")
       auto
  then show ?thesis using so lp by blast
qed

lemma main_files:
  assumes "main sk src cfg w = Inr w'" and "listdir src \<noteq> []" and "enabled cfg c0"
  shows "\<exists>sorted_files w1 t.
           sorted_alphanumeric (listdir src) = Inr sorted_files
         \<and> sorted_files \<noteq> []
         \<and> corpus_loop sk src cfg (enumerate 0 sorted_files) (w, new_tables) = Inr (w1, t)
         \<and> files w' = files w @ written cfg t
         \<and> (\<forall>c. enabled cfg c \<longrightarrow>
               (\<exists>fvs. map (file_fv sk src cfg c) sorted_files = map Inr fvs
                  \<and> table t c = add_rows (zip sorted_files fvs) new_frame))"
proof -
  from main_Inr[OF assms(1,2)] obtain sorted_files w1 t where
    so: "sorted_alphanumeric (listdir src) = Inr sorted_files"
    and lp: "corpus_loop sk src cfg (enumerate 0 sorted_files) (w, new_tables) = Inr (w1, t)"
    and fw: "files w' =
             (if MBH_FISHER_VECTOR cfg then save_as_csv (mbh_df t) (csv_path MBH) else id)
             ((if HOF_FISHER_VECTOR cfg then save_as_csv (hof_df t) (csv_path HOF) else id)
             ((if HOG_FISHER_VECTOR cfg then save_as_csv (hog_df t) (csv_path HOG) else id)
               (files w1)))"
    by blast
  have ne: "sorted_files \<noteq> []"
    using sorted_alphanumeric_Inr(3)[OF so] assms(2) by auto
  have tabs: "\<exists>fvs. map (file_fv sk src cfg c) sorted_files = map Inr fvs
                  \<and> table t c = add_rows (zip sorted_files fvs) new_frame"
    if "enabled cfg c" for c
    using corpus_loop_result[OF lp assms(3), of c] that by (simp add: table_new_tables)
  have w1: "files w1 = files w"
    using corpus_loop_result[OF lp assms(3), of c0] by simp
  have nonempty: "\<not> df_empty (table t c)" if "enabled cfg c" for c
  proof -
    from tabs[OF that] obtain fvs where
      m: "map (file_fv sk src cfg c) sorted_files = map Inr fvs"
      and t: "table t c = add_rows (zip sorted_files fvs) new_frame" by blast
    have "length fvs = length sorted_files" using m by (metis length_map)
    then have "zip sorted_files fvs \<noteq> []" using ne by (cases sorted_files; cases fvs) auto
    then show ?thesis unfolding t by (rule add_rows_new_frame(4))
  qed
  have "files w' = files w @ written cfg t"
    unfolding fw w1 written_def
    using nonempty[of HOG] nonempty[of HOF] nonempty[of MBH]
    by (simp add: save_as_csv_def)
  then show ?thesis using so ne lp tabs by blast
qed

section \<open>Names on which the sort cannot fail\<close>

lemma re_split_pieces: "p \<in> set (re_split s) \<Longrightarrow> set p \<subseteq> set s"
proof (induction s arbitrary: p rule: re_split.induct)
  case (1 s)
  let ?text = "takeWhile (\<lambda>c. \<not> is_ascii_digit c) s"
  let ?r = "dropWhile (\<lambda>c. \<not> is_ascii_digit c) s"
  have r: "set ?r \<subseteq> set s" by (auto dest: set_dropWhileD)
  show ?case
  proof (cases "?r = []")
    case True
    then have "re_split s = [?text]" by (subst re_split.simps) (simp add: Let_def)
    then show ?thesis using "1.prems" by (auto dest: set_takeWhileD)
  next
    case False
    let ?num = "takeWhile is_ascii_digit ?r"
    let ?rest = "dropWhile is_ascii_digit ?r"
    have rs: "re_split s = ?text # ?num # re_split ?rest"
      using False by (subst re_split.simps) (simp add: Let_def)
    consider "p = ?text" | "p = ?num" | "p \<in> set (re_split ?rest)"
      using "1.prems" unfolding rs by auto
    then show ?thesis
    proof cases
      case 1
      then show ?thesis by (auto dest: set_takeWhileD)
    next
      case 2
      then show ?thesis using r by (auto dest: set_takeWhileD)
    next
      case 3
      then have "set p \<subseteq> set ?rest" using "1.IH"[OF refl refl False] by blast
      moreover have "set ?rest \<subseteq> set ?r" by (auto dest: set_dropWhileD)
      ultimately show ?thesis using r by blast
    qed
  qed
qed

lemma convert_ascii:
  assumes "\<forall>c\<in>set text. (of_char c :: nat) < 128"
  shows "\<exists>k. convert text = Inr k"
proof -
  have one: "is_ascii_digit c" if "py_isdigit c" and "(of_char c :: nat) < 128" for c
    using that by (auto simp: py_isdigit_def)
  have "list_all py_isdigit text \<Longrightarrow> list_all is_ascii_digit text"
    using assms one by (simp add: list_all_iff)
  then show ?thesis by (auto simp: convert_def)
qed

lemma map_err_total:
  "\<forall>x\<in>set xs. \<exists>y. f x = Inr y \<Longrightarrow> \<exists>ys. map_err f xs = Inr ys"
  by (induction xs) auto

lemma alphanum_key_ascii:
  assumes "\<forall>c\<in>set s. (of_char c :: nat) < 128"
  shows "\<exists>k. alphanum_key s = Inr k"
  unfolding alphanum_key_def
proof (rule map_err_total, rule ballI)
  fix p assume "p \<in> set (re_split s)"
  then have "\<forall>c\<in>set p. (of_char c :: nat) < 128"
    using re_split_pieces assms by blast
  then show "\<exists>y. convert p = Inr y" by (rule convert_ascii)
qed

lemma sorted_alphanumeric_ascii:
  assumes "\<forall>s\<in>set data. \<forall>c\<in>set s. (of_char c :: nat) < 128"
  shows "\<exists>fs. sorted_alphanumeric data = Inr fs"
proof -
  have "\<exists>keys. map_err alphanum_key data = Inr keys"
    using assms by (intro map_err_total ballI alphanum_key_ascii) blast
  then show ?thesis by (auto simp: sorted_alphanumeric_def)
qed

section \<open>The cells of a row\<close>

lemma of_char_digit: "d < 10 \<Longrightarrow> (of_char (''0123456789'' ! d) :: nat) = 48 + d"
proof -
  assume "d < 10"
  then have "d \<in> {0, 1, 2, 3, 4, 5, 6, 7, 8, 9}" by auto
  then show ?thesis by (auto simp: nth_Cons')
qed

lemma py_int_snoc: "py_int (xs @ [c]) = 10 * py_int xs + (int (of_char c) - 48)"
  by (simp add: py_int_def)

lemma py_int_str_nat: "py_int (str_nat n) = int n"
proof (induction n rule: str_nat.induct)
  case (1 n)
  show ?case
  proof (cases "n < 10")
    case True
    then show ?thesis
      by (subst str_nat.simps) (simp add: py_int_def of_char_digit)
  next
    case False
    have "py_int (str_nat n) = 10 * int (n div 10) + int (n mod 10)"
      using False "1.IH"
      by (subst str_nat.simps) (simp add: py_int_snoc of_char_digit)
    then show ?thesis by (simp add: zdiv_int zmod_int)
  qed
qed

lemma str_nat_inj: "str_nat a = str_nat b \<Longrightarrow> a = b"
  by (metis py_int_str_nat of_nat_eq_iff)

lemma fold_update_lookup:
  "fold (\<lambda>(i, val) m. m(str_nat i \<mapsto> Num val)) (enumerate n xs) m (str_nat j)
     = (if n \<le> j \<and> j < n + length xs then Some (Num (xs ! (j - n))) else m (str_nat j))"
proof (induction xs arbitrary: n m)
  case Nil
  show ?case by auto
next
  case (Cons x xs)
  have "fold (\<lambda>(i, val) m. m(str_nat i \<mapsto> Num val)) (enumerate n (x # xs)) m (str_nat j)
          = fold (\<lambda>(i, val) m. m(str_nat i \<mapsto> Num val)) (enumerate (Suc n) xs)
              (m(str_nat n \<mapsto> Num x)) (str_nat j)"
    by simp
  also have "\<dots> = (if Suc n \<le> j \<and> j < Suc n + length xs then Some (Num (xs ! (j - Suc n)))
                     else (m(str_nat n \<mapsto> Num x)) (str_nat j))"
    by (rule Cons.IH)
  also have "\<dots> = (if n \<le> j \<and> j < n + length (x # xs) then Some (Num ((x # xs) ! (j - n)))
                     else m (str_nat j))"
    using str_nat_inj[of j n] by (auto simp: nth_Cons' Suc_diff_le not_less_eq_eq)
  finally show ?case .
qed

lemma row_of_cells:
  "row_of (''name'' # map str_nat [0..<L]) name fv
     = Name name # map (\<lambda>j. if j < length fv then Num (fv ! j) else NaN) [0..<L]"
  by (simp add: row_of_def fold_update_name fold_update_lookup str_nat_not_name
      str_nat_not_name[THEN not_sym])

lemma row_of_exact:
  "row_of (''name'' # map str_nat [0..<length fv]) name fv = Name name # map Num fv"
proof -
  have "map (\<lambda>j. if j < length fv then Num (fv ! j) else NaN) [0..<length fv] = map Num fv"
    by (intro nth_equalityI) simp_all
  then show ?thesis by (simp add: row_of_cells)
qed

lemma add_rows_cells_named:
  assumes "rows df \<noteq> []" and "columns df = ''name'' # map str_nat [0..<L]"
    and "\<forall>r\<in>set rs. length (snd r) = L"
  shows "rows (add_rows rs df)
           = rows df @ map (\<lambda>(file, fv). Name (name_of file) # map Num fv) rs
       \<and> columns (add_rows rs df) = columns df"
  using assms
proof (induction rs arbitrary: df)
  case Nil
  then show ?case by (simp add: add_rows_def)
next
  case (Cons r rs)
  obtain fl fv where r: "r = (fl, fv)" by (cases r)
  have L: "length fv = L" using Cons.prems(3) r by simp
  let ?df = "add_row_to_table df (name_of fl) fv"
  have ne: "\<not> df_empty df" using Cons.prems(1,2) by (simp add: df_empty_def)
  have eq: "?df = df\<lparr> rows := rows df @ [Name (name_of fl) # map Num fv] \<rparr>"
    using add_row_nonempty[OF ne, of "name_of fl" fv] row_of_exact[of fv "name_of fl"]
    by (simp add: Cons.prems(2) L)
  have step: "add_rows (r # rs) df = add_rows rs ?df" by (simp add: add_rows_def r)
  have "rows (add_rows rs ?df)
           = rows ?df @ map (\<lambda>(file, fv). Name (name_of file) # map Num fv) rs
       \<and> columns (add_rows rs ?df) = columns ?df"
    using Cons.prems by (intro Cons.IH) (simp_all add: eq)
  then show ?case unfolding step by (simp add: eq r)
qed

lemma add_rows_cells:
  assumes "rs \<noteq> []" and "\<forall>r\<in>set rs. length (snd r) = L"
  shows "add_rows rs new_frame
           = \<lparr> columns = ''name'' # map str_nat [0..<L],
               rows = map (\<lambda>(file, fv). Name (name_of file) # map Num fv) rs \<rparr>"
proof -
  obtain fl fv rs' where rs: "rs = (fl, fv) # rs'" using assms(1) by (cases rs) auto
  have L: "length fv = L" using assms(2) rs by simp
  let ?df = "add_row_to_table new_frame (name_of fl) fv"
  have e: "df_empty new_frame" by (simp add: df_empty_def new_frame_def)
  have eq: "?df = \<lparr> columns = ''name'' # map str_nat [0..<L],
                       rows = [Name (name_of fl) # map Num fv] \<rparr>"
    using add_row_empty[OF e, of "name_of fl" fv] row_of_exact[of fv "name_of fl"]
    by (simp add: L)
  have step: "add_rows rs new_frame = add_rows rs' ?df" by (simp add: add_rows_def rs)
  have "rows (add_rows rs' ?df)
           = rows ?df @ map (\<lambda>(file, fv). Name (name_of file) # map Num fv) rs'
       \<and> columns (add_rows rs' ?df) = columns ?df"
    using assms(2) by (intro add_rows_cells_named[where L = L]) (simp_all add: eq rs)
  then show ?thesis unfolding step by (simp add: eq rs)
qed

section \<open>The MBH channel\<close>

lemma map_err_fields:
  assumes "\<forall>r\<in>set tracks. i \<le> length r" and "0 < i"
  shows "map_err (\<lambda>r. field_from_end r i) tracks = Inr (map (\<lambda>r. r ! (length r - i)) tracks)"
  unfolding map_err_Inr_iff using assms
  by (simp add: list_all2_map2 list_all2_same field_from_end_def)

lemma np_array_same: "\<forall>x\<in>set xs. shape x = s \<Longrightarrow> np_array xs = Inr (Arr xs)"
  by (cases xs) (auto simp: np_array_def list_all_iff)

lemma read_mbh_fields:
  assumes "\<forall>r\<in>set tracks. 3 \<le> length r"
    and "\<forall>r\<in>set tracks. shape (r ! (length r - 3)) = sx"
    and "\<forall>r\<in>set tracks. shape (r ! (length r - 2)) = sy"
  shows "read_mbh tracks
           = Inr (Arr (map (\<lambda>r. r ! (length r - 3)) tracks),
                  Arr (map (\<lambda>r. r ! (length r - 2)) tracks))"
proof -
  have two: "\<forall>r\<in>set tracks. 2 \<le> length r" using assms(1) by auto
  have x: "np_array (map (\<lambda>r. r ! (length r - 3)) tracks)
             = Inr (Arr (map (\<lambda>r. r ! (length r - 3)) tracks))"
    using assms(2) by (intro np_array_same[of _ sx]) simp
  have y: "np_array (map (\<lambda>r. r ! (length r - 2)) tracks)
             = Inr (Arr (map (\<lambda>r. r ! (length r - 2)) tracks))"
    using assms(3) by (intro np_array_same[of _ sy]) simp
  show ?thesis
    unfolding read_mbh_def map_err_fields[OF assms(1), simplified] map_err_fields[OF two, simplified]
    by (simp add: x y)
qed

lemma stack_matrix:
  assumes "xs \<noteq> []" and "\<forall>x\<in>set xs. rect x \<and> shape x = [D]"
  shows "rect (Arr xs)" and "shape (Arr xs) = [length xs, D]"
  using assms by (cases xs; auto simp: list_all_iff)+

lemma shape_replicate_row: "0 < n \<Longrightarrow> shape (Arr (replicate n (Scalar v))) = [n]"
  by (cases n) simp_all

lemma wide_batch:
  "rect (Arr [wide_row])" "shape (Arr [wide_row]) = [1, 96]"
  "rows_of (Arr [wide_row]) = [replicate 96 0]"
  by (simp_all add: wide_row_def shape_replicate_row list_all_iff map_replicate_const)

text \<open>
  Claim C7. For the MBH channel the X-axis matrix is the stack of the fields at
  position \<open>-3\<close> of the trajectory records and the Y-axis matrix the stack of the
  fields at position \<open>-2\<close>. The loop body runs \<^verbatim>\<open>fisher_descriptor\<close> once on each,
  each call with its own reduction and its own fit, and appends to the MBH table the
  row whose features are the X vector followed by the Y vector. For blocks of width
  \<open>D\<close>, when the library calls succeed with results of the shapes they were asked
  for, each vector has length \<open>K + 2 * K * (D div 2)\<close> and the row has twice as many
  features; in a table that was empty the row holds the name, the X vector and the Y
  vector in that order. The witness has the X block \<open>(5, 6)\<close> and the Y block
  \<open>(7, 8)\<close>, and the case \<open>D = 96\<close> per axis, \<open>K = 4\<close>: 388 each, 776 together.
\<close>

theorem mbh_concatenation:
  assumes "MBH_FISHER_VECTOR cfg" and "tracks \<noteq> []"
    and "\<forall>r\<in>set tracks. 3 \<le> length r
           \<and> rect (r ! (length r - 3)) \<and> shape (r ! (length r - 3)) = [D]
           \<and> rect (r ! (length r - 2)) \<and> shape (r ! (length r - 2)) = [D]"
    and "mbh_x = Arr (map (\<lambda>r. r ! (length r - 3)) tracks)"
    and "mbh_y = Arr (map (\<lambda>r. r ! (length r - 2)) tracks)"
    and "pca_fit_transform sk (D div 2) (rows_of mbh_x) = Inr Yx"
    and "has_shape (length tracks) (D div 2) Yx"
    and "gmm_fit sk (K_const cfg) Yx = Inr gx"
    and "length (weights gx) = K_const cfg"
    and "has_shape (K_const cfg) (D div 2) (means gx)"
    and "has_shape (K_const cfg) (D div 2) (covariances gx)"
    and "predict_proba sk gx Yx = Inr Qx"
    and "has_shape (length tracks) (K_const cfg) Qx"
    and "pca_fit_transform sk (D div 2) (rows_of mbh_y) = Inr Yy"
    and "has_shape (length tracks) (D div 2) Yy"
    and "gmm_fit sk (K_const cfg) Yy = Inr gy"
    and "length (weights gy) = K_const cfg"
    and "has_shape (K_const cfg) (D div 2) (means gy)"
    and "has_shape (K_const cfg) (D div 2) (covariances gy)"
    and "predict_proba sk gy Yy = Inr Qy"
    and "has_shape (length tracks) (K_const cfg) Qy"
  shows "\<exists>x_fv y_fv.
           read_mbh tracks = Inr (mbh_x, mbh_y)
         \<and> fisher_descriptor sk (K_const cfg) mbh_x = Inr x_fv
         \<and> fisher_vector sk Yx gx = Inr x_fv
         \<and> fisher_descriptor sk (K_const cfg) mbh_y = Inr y_fv
         \<and> fisher_vector sk Yy gy = Inr y_fv
         \<and> length x_fv = K_const cfg + 2 * K_const cfg * (D div 2)
         \<and> length y_fv = K_const cfg + 2 * K_const cfg * (D div 2)
         \<and> mbh_step sk cfg name tracks t
             = Inr (t\<lparr> mbh_df := add_row_to_table (mbh_df t) name (x_fv @ y_fv) \<rparr>)
         \<and> take (length x_fv) (x_fv @ y_fv) = x_fv
         \<and> drop (length x_fv) (x_fv @ y_fv) = y_fv
         \<and> length (x_fv @ y_fv) = 2 * (K_const cfg + 2 * K_const cfg * (D div 2))
         \<and> (df_empty (mbh_df t) \<longrightarrow>
               add_row_to_table (mbh_df t) name (x_fv @ y_fv)
                 = \<lparr> columns = ''name''
                       # map str_nat [0..<2 * (K_const cfg + 2 * K_const cfg * (D div 2))],
                     rows = [Name name # map Num x_fv @ map Num y_fv] \<rparr>)"
proof -
  let ?L = "K_const cfg + 2 * K_const cfg * (D div 2)"
  have N: "0 < length tracks" using assms(2) by simp
  have rd: "read_mbh tracks = Inr (mbh_x, mbh_y)"
    unfolding assms(4,5) using assms(3) by (intro read_mbh_fields[of _ "[D]" "[D]"]) auto
  have xs: "map (\<lambda>r. r ! (length r - 3)) tracks \<noteq> []"
    and ys: "map (\<lambda>r. r ! (length r - 2)) tracks \<noteq> []"
    using assms(2) by simp_all
  have rx: "rect mbh_x" and sx: "shape mbh_x = [length tracks, D]"
    unfolding assms(4) using stack_matrix[OF xs, of D] assms(3) by auto
  have ry: "rect mbh_y" and sy: "shape mbh_y = [length tracks, D]"
    unfolding assms(5) using stack_matrix[OF ys, of D] assms(3) by auto
  have cx: "fisher_descriptor sk (K_const cfg) mbh_x = fisher_vector sk Yx gx"
    using assms(6,8) by (simp add: fisher_descriptor_matrix[OF sx])
  have cy: "fisher_descriptor sk (K_const cfg) mbh_y = fisher_vector sk Yy gy"
    using assms(14,16) by (simp add: fisher_descriptor_matrix[OF sy])
  from fisher_vector_length[OF assms(7) N assms(12) assms(13) assms(9) assms(10) assms(11)]
  obtain x_fv where vx: "fisher_vector sk Yx gx = Inr x_fv" and lx: "length x_fv = ?L"
    by blast
  from fisher_vector_length[OF assms(15) N assms(20) assms(21) assms(17) assms(18) assms(19)]
  obtain y_fv where vy: "fisher_vector sk Yy gy = Inr y_fv" and ly: "length y_fv = ?L"
    by blast
  have st: "mbh_step sk cfg name tracks t
             = Inr (t\<lparr> mbh_df := add_row_to_table (mbh_df t) name (x_fv @ y_fv) \<rparr>)"
    using assms(1) rd cx cy vx vy by (simp add: mbh_step_def)
  have l2: "length (x_fv @ y_fv) = 2 * ?L" using lx ly by simp
  have row: "add_row_to_table (mbh_df t) name (x_fv @ y_fv)
          = \<lparr> columns = ''name'' # map str_nat [0..<2 * ?L],
              rows = [Name name # map Num x_fv @ map Num y_fv] \<rparr>"
    if "df_empty (mbh_df t)"
  proof -
    have "add_row_to_table (mbh_df t) name (x_fv @ y_fv)
          = \<lparr> columns = ''name'' # map str_nat [0..<length (x_fv @ y_fv)],
              rows = [Name name # map Num (x_fv @ y_fv)] \<rparr>"
      unfolding add_row_empty[OF that] row_of_exact ..
    then show ?thesis unfolding l2 by simp
  qed
  show ?thesis
    using rd cx cy vx vy lx ly st row l2 by (intro exI[of _ x_fv] exI[of _ y_fv]) simp
qed

theorem mbh_concatenation_witness:
  "read_mbh [sample_track] = Inr (Arr [Arr [Scalar 5, Scalar 6]], Arr [Arr [Scalar 7, Scalar 8]])
   \<and> mbh_step tiny_sklearn tiny_config ''clip'' [sample_track] new_tables
       = Inr (new_tables\<lparr> mbh_df :=
                \<lparr> columns = [''name'', ''0'', ''1'', ''2'', ''3'', ''4'', ''5''],
                  rows = [[Name ''clip'', Num 0, Num 5, Num (- 24),
                           Num 0, Num 7, Num (- 48)]] \<rparr> \<rparr>)
   \<and> (\<exists>x_fv y_fv.
          mbh_step wide_sklearn wide_config ''clip'' [wide_track] new_tables
            = Inr (new_tables\<lparr> mbh_df := add_row_to_table new_frame ''clip'' (x_fv @ y_fv) \<rparr>)
        \<and> length x_fv = 388 \<and> length y_fv = 388 \<and> length (x_fv @ y_fv) = 776)"
proof -
  have e: "df_empty (mbh_df new_tables)"
    by (simp add: new_tables_def new_frame_def df_empty_def)
  have a1: "MBH_FISHER_VECTOR tiny_config" by (simp add: tiny_config_def)
  have a2: "[sample_track] \<noteq> []" by simp
  have a3: "\<forall>r\<in>set [sample_track]. 3 \<le> length r
           \<and> rect (r ! (length r - 3)) \<and> shape (r ! (length r - 3)) = [2]
           \<and> rect (r ! (length r - 2)) \<and> shape (r ! (length r - 2)) = [2]"
    by (simp add: sample_track_def)
  have a4: "Arr [Arr [Scalar 5, Scalar 6]] = Arr (map (\<lambda>r. r ! (length r - 3)) [sample_track])"
    by (simp add: sample_track_def)
  have a5: "Arr [Arr [Scalar 7, Scalar 8]] = Arr (map (\<lambda>r. r ! (length r - 2)) [sample_track])"
    by (simp add: sample_track_def)
  have a6: "pca_fit_transform tiny_sklearn (2 div 2) (rows_of (Arr [Arr [Scalar 5, Scalar 6]]))
              = Inr [[5]]"
    by (simp add: tiny_sklearn_def stub_sklearn_def)
  have a7: "has_shape (length [sample_track]) (2 div 2) [[5]]" by (simp add: has_shape_def)
  have a8: "gmm_fit tiny_sklearn (K_const tiny_config) [[5]] = Inr (flat_gmm 1 1)"
    by (simp add: tiny_sklearn_def stub_sklearn_def)
  have a9: "length (weights (flat_gmm 1 1)) = K_const tiny_config"
    by (simp add: flat_gmm_def tiny_config_def)
  have a10: "has_shape (K_const tiny_config) (2 div 2) (means (flat_gmm 1 1))"
    by (simp add: flat_gmm_def tiny_config_def has_shape_def)
  have a11: "has_shape (K_const tiny_config) (2 div 2) (covariances (flat_gmm 1 1))"
    by (simp add: flat_gmm_def tiny_config_def has_shape_def)
  have a12: "predict_proba tiny_sklearn (flat_gmm 1 1) [[5]] = Inr [[1]]"
    by (simp add: tiny_sklearn_def stub_sklearn_def)
  have a13: "has_shape (length [sample_track]) (K_const tiny_config) [[1]]"
    by (simp add: has_shape_def tiny_config_def)
  have b6: "pca_fit_transform tiny_sklearn (2 div 2) (rows_of (Arr [Arr [Scalar 7, Scalar 8]]))
              = Inr [[7]]"
    by (simp add: tiny_sklearn_def stub_sklearn_def)
  have b7: "has_shape (length [sample_track]) (2 div 2) [[7]]" by (simp add: has_shape_def)
  have b8: "gmm_fit tiny_sklearn (K_const tiny_config) [[7]] = Inr (flat_gmm 1 1)"
    by (simp add: tiny_sklearn_def stub_sklearn_def)
  have b12: "predict_proba tiny_sklearn (flat_gmm 1 1) [[7]] = Inr [[1]]"
    by (simp add: tiny_sklearn_def stub_sklearn_def)
  from mbh_concatenation[OF a1 a2 a3 a4 a5 a6 a7 a8 a9 a10 a11 a12 a13 b6 b7 b8 a9 a10 a11 b12 a13,
      of "''clip''" new_tables]
  obtain x_fv y_fv where
    rd: "read_mbh [sample_track]
           = Inr (Arr [Arr [Scalar 5, Scalar 6]], Arr [Arr [Scalar 7, Scalar 8]])"
    and vx: "fisher_vector tiny_sklearn [[5]] (flat_gmm 1 1) = Inr x_fv"
    and vy: "fisher_vector tiny_sklearn [[7]] (flat_gmm 1 1) = Inr y_fv"
    and st: "mbh_step tiny_sklearn tiny_config ''clip'' [sample_track] new_tables
               = Inr (new_tables\<lparr> mbh_df :=
                        add_row_to_table (mbh_df new_tables) ''clip'' (x_fv @ y_fv) \<rparr>)"
    and rw: "df_empty (mbh_df new_tables) \<longrightarrow>
               add_row_to_table (mbh_df new_tables) ''clip'' (x_fv @ y_fv)
                 = \<lparr> columns = ''name''
                       # map str_nat [0..<2 * (K_const tiny_config
                                               + 2 * K_const tiny_config * (2 div 2))],
                     rows = [Name ''clip'' # map Num x_fv @ map Num y_fv] \<rparr>"
    by blast
  have "fisher_vector tiny_sklearn [[5]] (flat_gmm 1 1) = Inr [0, 5, - 24]"
    "fisher_vector tiny_sklearn [[7]] (flat_gmm 1 1) = Inr [0, 7, - 48]"
    by code_simp+
  then have x: "x_fv = [0, 5, - 24]" and y: "y_fv = [0, 7, - 48]"
    using vx vy by simp_all
  have "add_row_to_table (mbh_df new_tables) ''clip'' (x_fv @ y_fv)
          = \<lparr> columns = [''name'', ''0'', ''1'', ''2'', ''3'', ''4'', ''5''],
              rows = [[Name ''clip'', Num 0, Num 5, Num (- 24), Num 0, Num 7, Num (- 48)]] \<rparr>"
    using rw e by (simp add: x y tiny_config_def upt_rec str_nat.simps)
  then have small: "mbh_step tiny_sklearn tiny_config ''clip'' [sample_track] new_tables
       = Inr (new_tables\<lparr> mbh_df :=
                \<lparr> columns = [''name'', ''0'', ''1'', ''2'', ''3'', ''4'', ''5''],
                  rows = [[Name ''clip'', Num 0, Num 5, Num (- 24),
                           Num 0, Num 7, Num (- 48)]] \<rparr> \<rparr>)"
    using st by simp
  have c1: "MBH_FISHER_VECTOR wide_config" by (simp add: wide_config_def)
  have c2: "[wide_track] \<noteq> []" by simp
  have c3: "\<forall>r\<in>set [wide_track]. 3 \<le> length r
           \<and> rect (r ! (length r - 3)) \<and> shape (r ! (length r - 3)) = [96]
           \<and> rect (r ! (length r - 2)) \<and> shape (r ! (length r - 2)) = [96]"
    by (simp add: wide_track_def wide_row_def shape_replicate_row list_all_iff)
  have c4: "Arr [wide_row] = Arr (map (\<lambda>r. r ! (length r - 3)) [wide_track])"
    by (simp add: wide_track_def)
  have c5: "Arr [wide_row] = Arr (map (\<lambda>r. r ! (length r - 2)) [wide_track])"
    by (simp add: wide_track_def)
  have c6: "pca_fit_transform wide_sklearn (96 div 2) (rows_of (Arr [wide_row]))
              = Inr [replicate 48 0]"
    by (simp add: wide_sklearn_def stub_sklearn_def wide_batch del: rows_of.simps)
  have c7: "has_shape (length [wide_track]) (96 div 2) [replicate 48 0]"
    by (simp add: has_shape_def)
  have c8: "gmm_fit wide_sklearn (K_const wide_config) [replicate 48 0] = Inr (flat_gmm 4 48)"
    by (simp add: wide_sklearn_def stub_sklearn_def)
  have c9: "length (weights (flat_gmm 4 48)) = K_const wide_config"
    by (simp add: flat_gmm_def wide_config_def)
  have c10: "has_shape (K_const wide_config) (96 div 2) (means (flat_gmm 4 48))"
    using has_shape_replicate[of 4 48 0] by (simp add: flat_gmm_def wide_config_def)
  have c11: "has_shape (K_const wide_config) (96 div 2) (covariances (flat_gmm 4 48))"
    using has_shape_replicate[of 4 48 1] by (simp add: flat_gmm_def wide_config_def)
  have c12: "predict_proba wide_sklearn (flat_gmm 4 48) [replicate 48 0]
               = Inr [replicate 4 (1 / 4)]"
    by (simp add: wide_sklearn_def stub_sklearn_def)
  have c13: "has_shape (length [wide_track]) (K_const wide_config) [replicate 4 (1 / 4)]"
    by (simp add: has_shape_def wide_config_def)
  from mbh_concatenation[OF c1 c2 c3 c4 c5 c6 c7 c8 c9 c10 c11 c12 c13 c6 c7 c8 c9 c10 c11 c12 c13,
      of "''clip''" new_tables]
  obtain u v where
    w1: "mbh_step wide_sklearn wide_config ''clip'' [wide_track] new_tables
           = Inr (new_tables\<lparr> mbh_df :=
                    add_row_to_table (mbh_df new_tables) ''clip'' (u @ v) \<rparr>)"
    and w2: "length u = K_const wide_config + 2 * K_const wide_config * (96 div 2)"
    and w3: "length v = K_const wide_config + 2 * K_const wide_config * (96 div 2)"
    by blast
  have wide: "\<exists>x_fv y_fv.
          mbh_step wide_sklearn wide_config ''clip'' [wide_track] new_tables
            = Inr (new_tables\<lparr> mbh_df := add_row_to_table new_frame ''clip'' (x_fv @ y_fv) \<rparr>)
        \<and> length x_fv = 388 \<and> length y_fv = 388 \<and> length (x_fv @ y_fv) = 776"
    using w1 w2 w3
    by (intro exI[of _ u] exI[of _ v]) (simp add: wide_config_def new_tables_def)
  show ?thesis using rd small wide by blast
qed

lemma corpus_loop_append:
  "corpus_loop sk src cfg (xs @ ys) s
     = bind_err (corpus_loop sk src cfg xs s) (corpus_loop sk src cfg ys)"
proof (induction xs arbitrary: s)
  case Nil
  show ?case by simp
next
  case (Cons x xs)
  obtain i f where x: "x = (i, f)" by (cases x)
  show ?case
    by (cases "process_video sk src cfg i f s") (simp_all add: x Cons.IH)
qed

lemma channel_fv_empty: "channel_fv sk k c [] = Inl IndexError"
  by (cases c)
     (simp_all add: read_hog_empty read_hof_empty read_mbh_empty fisher_descriptor_empty)

section \<open>A video without trajectories stops the run\<close>

text \<open>
  Claim C3, as the program behaves. When the trajectory batch of a video is empty and a
  channel is enabled, the pipeline of that channel raises IndexError (from
  \<^verbatim>\<open>descriptor.shape[1]\<close> on an array of shape \<open>(0,)\<close>), nothing is appended, and
  since nothing catches the exception the run ends there: the videos after it are not
  processed and no table is written.
\<close>

theorem empty_batch_aborts_run:
  assumes "enabled cfg c"
    and "sorted_alphanumeric (listdir src) = Inr (earlier @ file # later)"
    and "corpus_loop sk src cfg (enumerate 0 earlier) (w, new_tables) = Inr (w1, t1)"
    and "densetrack src (read_video src file) = Inr []"
  shows "file_fv sk src cfg c file = Inl IndexError
       \<and> main sk src cfg w
           = Inl (IndexError,
                  w1\<lparr> printed := printed w1
                         @ [Separator, Running file (shape (read_video src file))] \<rparr>)
       \<and> files w1 = files w"
proof -
  have fl: "HOG_FISHER_VECTOR cfg \<or> HOF_FISHER_VECTOR cfg \<or> MBH_FISHER_VECTOR cfg"
    using assms(1) by (cases c) auto
  have ne: "listdir src \<noteq> []"
    using assms(2) by (auto simp: sorted_alphanumeric_Nil)
  have en: "enumerate 0 (earlier @ file # later)
              = enumerate 0 earlier @ (length earlier, file) # enumerate (Suc (length earlier)) later"
    by (simp add: enumerate_append_eq)
  have lp: "corpus_loop sk src cfg (enumerate 0 (earlier @ file # later)) (w, new_tables)
              = Inl (IndexError,
                  w1\<lparr> printed := printed w1
                         @ [Separator, Running file (shape (read_video src file))] \<rparr>)"
    unfolding en corpus_loop_append assms(3)
    by (simp add: process_video_empty_batch[OF fl assms(4)])
  have "main sk src cfg w
           = Inl (IndexError,
                  w1\<lparr> printed := printed w1
                         @ [Separator, Running file (shape (read_video src file))] \<rparr>)"
    using ne lp unfolding main_def assms(2) new_tables_def by simp
  moreover have "file_fv sk src cfg c file = Inl IndexError"
    by (simp add: file_fv_def assms(4) channel_fv_empty)
  moreover have "files w1 = files w"
    using corpus_loop_result[OF assms(3) assms(1), of c] by simp
  ultimately show ?thesis by blast
qed

theorem empty_batch_aborts_run_witness:
  "main tiny_sklearn (sample_source [''c.avi'', ''b.avi'', ''a.avi''] [''b.avi'']) tiny_config world0
     = Inl (IndexError,
            \<lparr> printed = [Separator, Running ''a.avi'' [1, 1, 1], Completed ''a.avi'',
                         Separator, Running ''b.avi'' [0]],
              files = [] \<rparr>)"
proof -
  let ?src = "sample_source [''c.avi'', ''b.avi'', ''a.avi''] [''b.avi'']"
  let ?run = "corpus_loop tiny_sklearn ?src tiny_config (enumerate 0 [''a.avi''])
                (world0, new_tables)"
  define w1 where "w1 = fst (projr ?run)"
  define t1 where "t1 = snd (projr ?run)"
  have h1: "enabled tiny_config HOG" by (simp add: tiny_config_def)
  have h2: "sorted_alphanumeric (listdir ?src) = Inr ([''a.avi''] @ ''b.avi'' # [''c.avi''])"
    by code_simp
  have "\<not> isl ?run" by code_simp
  then have h3: "?run = Inr (w1, t1)" unfolding w1_def t1_def by simp
  have h4: "densetrack ?src (read_video ?src ''b.avi'') = Inr []"
    by (simp add: sample_source_def)
  have pr: "printed w1 = [Separator, Running ''a.avi'' [1, 1, 1], Completed ''a.avi'']"
    unfolding w1_def by code_simp
  have sh: "shape (read_video ?src ''b.avi'') = [0]" by (simp add: sample_source_def)
  from empty_batch_aborts_run[OF h1 h2 h3 h4]
  have m: "main tiny_sklearn ?src tiny_config world0
             = Inl (IndexError, w1\<lparr> printed := printed w1 @ [Separator, Running ''b.avi'' [0]] \<rparr>)"
    and f: "files w1 = files world0"
    by (simp_all add: sh)
  have "w1\<lparr> printed := printed w1 @ [Separator, Running ''b.avi'' [0]] \<rparr>
          = \<lparr> printed = [Separator, Running ''a.avi'' [1, 1, 1], Completed ''a.avi'',
                         Separator, Running ''b.avi'' [0]],
              files = [] \<rparr>"
    using pr f by (cases w1) (simp add: world0_def)
  then show ?thesis using m by simp
qed

text \<open>
  Claim C3 as stated fails: of the two videos \<open>a.avi\<close> (no trajectories) and \<open>b.avi\<close>
  (whose pipeline succeeds), the run ends with IndexError after the first line printed
  for \<open>a.avi\<close>; \<open>b.avi\<close> is never reached.
\<close>

theorem empty_batch_counterexample:
  "main tiny_sklearn (sample_source [''a.avi'', ''b.avi''] [''a.avi'']) tiny_config world0
     = Inl (IndexError, \<lparr> printed = [Separator, Running ''a.avi'' [0]], files = [] \<rparr>)
   \<and> file_fv tiny_sklearn (sample_source [''a.avi'', ''b.avi''] [''a.avi'']) tiny_config HOG ''b.avi''
     = Inr [0, 1, 0]"
  by code_simp

section \<open>The tables that a completed run writes\<close>

text \<open>
  Claim C9. In a run over a non-empty directory that completes, every enabled channel
  has one table. Its columns are \<open>name\<close> followed by \<open>0\<close> to \<open>L - 1\<close>, where \<open>L\<close> is
  the length of the Fisher vector of the first video; it has one row per video, each
  beginning with the name of its video (and, when the vectors of all videos have one
  length, continuing with the vector); the loop writes no file, and after it the
  tables of the enabled channels are written, each once. A table without rows is not
  written by \<^verbatim>\<open>save_as_csv\<close>.
\<close>

theorem feature_table_written:
  assumes "main sk src cfg w = Inr w'" and "listdir src \<noteq> []" and "enabled cfg c"
  shows "\<exists>sorted_files fvs w1 t.
           sorted_alphanumeric (listdir src) = Inr sorted_files
         \<and> map (file_fv sk src cfg c) sorted_files = map Inr fvs
         \<and> corpus_loop sk src cfg (enumerate 0 sorted_files) (w, new_tables) = Inr (w1, t)
         \<and> files w1 = files w
         \<and> files w' = files w @ written cfg t
         \<and> columns (table t c) = ''name'' # map str_nat [0..<length (hd fvs)]
         \<and> length (rows (table t c)) = length (listdir src)
         \<and> map hd (rows (table t c)) = map (\<lambda>file. Name (name_of file)) sorted_files
         \<and> ((\<forall>fv\<in>set fvs. length fv = length (hd fvs)) \<longrightarrow>
               rows (table t c)
                 = map2 (\<lambda>file fv. Name (name_of file) # map Num fv) sorted_files fvs)
         \<and> (\<forall>df path fs. df_empty df \<longrightarrow> save_as_csv df path fs = fs)"
proof -
  from main_files[OF assms] obtain sorted_files w1 t where
    so: "sorted_alphanumeric (listdir src) = Inr sorted_files"
    and ne: "sorted_files \<noteq> []"
    and lp: "corpus_loop sk src cfg (enumerate 0 sorted_files) (w, new_tables) = Inr (w1, t)"
    and fw: "files w' = files w @ written cfg t"
    and tb: "\<forall>c. enabled cfg c \<longrightarrow>
               (\<exists>fvs. map (file_fv sk src cfg c) sorted_files = map Inr fvs
                  \<and> table t c = add_rows (zip sorted_files fvs) new_frame)"
    by blast
  from tb assms(3) obtain fvs where
    m: "map (file_fv sk src cfg c) sorted_files = map Inr fvs"
    and t: "table t c = add_rows (zip sorted_files fvs) new_frame" by blast
  have len: "length fvs = length sorted_files" using m by (metis length_map)
  then have z: "zip sorted_files fvs \<noteq> []" using ne by (cases sorted_files; cases fvs) auto
  have hdz: "snd (hd (zip sorted_files fvs)) = hd fvs"
    using ne len by (cases sorted_files; cases fvs) auto
  have cols: "columns (table t c) = ''name'' # map str_nat [0..<length (hd fvs)]"
    unfolding t using add_rows_new_frame(1)[OF z] by (simp add: hdz)
  have "map (\<lambda>(file, fv). Name (name_of file)) (zip sorted_files fvs)
          = map (\<lambda>file. Name (name_of file)) (map fst (zip sorted_files fvs))"
    by (simp add: case_prod_unfold comp_def)
  also have "\<dots> = map (\<lambda>file. Name (name_of file)) sorted_files"
    using len by simp
  finally have names: "map hd (rows (table t c)) = map (\<lambda>file. Name (name_of file)) sorted_files"
    unfolding t using add_rows_new_frame(2)[OF z] by simp
  have "length (rows (table t c)) = length sorted_files"
    unfolding t using add_rows_new_frame(3)[OF z] len by simp
  then have n: "length (rows (table t c)) = length (listdir src)"
    using sorted_alphanumeric_Inr(3)[OF so] by simp
  have w1: "files w1 = files w"
    using corpus_loop_result[OF lp assms(3), of c] by simp
  have omit: "\<forall>df path fs. df_empty df \<longrightarrow> save_as_csv df path fs = fs"
    by (simp add: save_as_csv_def)
  have cells: "rows (table t c)
                 = map2 (\<lambda>file fv. Name (name_of file) # map Num fv) sorted_files fvs"
    if "\<forall>fv\<in>set fvs. length fv = length (hd fvs)"
  proof -
    have "\<forall>r\<in>set (zip sorted_files fvs). length (snd r) = length (hd fvs)"
      using that by (auto dest: set_zip_rightD)
    then have "add_rows (zip sorted_files fvs) new_frame
           = \<lparr> columns = ''name'' # map str_nat [0..<length (hd fvs)],
               rows = map (\<lambda>(file, fv). Name (name_of file) # map Num fv)
                        (zip sorted_files fvs) \<rparr>"
      by (rule add_rows_cells[OF z])
    then show ?thesis by (simp add: t)
  qed
  show ?thesis using so m lp w1 fw cols n names cells omit by blast
qed

theorem feature_table_written_witness:
  "\<exists>t::tables. main tiny_sklearn (sample_source [''b.avi'', ''a.avi''] []) tiny_config world0
          = Inr \<lparr> printed = [Separator, Running ''a.avi'' [1, 1, 1], Completed ''a.avi'',
                              Separator, Running ''b.avi'' [1, 1, 1], Completed ''b.avi''],
                   files = [(''features/hog_features.csv'', Csv (hog_df t)),
                            (''features/hof_features.csv'', Csv (hof_df t)),
                            (''features/mbh_features.csv'', Csv (mbh_df t))] \<rparr>
      \<and> columns (mbh_df t) = [''name'', ''0'', ''1'', ''2'', ''3'', ''4'', ''5'']
      \<and> rows (mbh_df t)
            = [[Name ''a'', Num 0, Num 5, Num (- 24), Num 0, Num 7, Num (- 48)],
               [Name ''b'', Num 0, Num 5, Num (- 24), Num 0, Num 7, Num (- 48)]]"
proof -
  let ?src = "sample_source [''b.avi'', ''a.avi''] []"
  define w' where "w' = projr (main tiny_sklearn ?src tiny_config world0)"
  have pr: "printed w' = [Separator, Running ''a.avi'' [1, 1, 1], Completed ''a.avi'',
                              Separator, Running ''b.avi'' [1, 1, 1], Completed ''b.avi'']"
    unfolding w'_def by code_simp
  have "\<not> isl (main tiny_sklearn ?src tiny_config world0)" by code_simp
  then have h1: "main tiny_sklearn ?src tiny_config world0 = Inr w'"
    unfolding w'_def by simp
  have h2: "listdir ?src \<noteq> []" by (simp add: sample_source_def)
  have h3: "enabled tiny_config MBH" by (simp add: tiny_config_def)
  from feature_table_written[OF h1 h2 h3] obtain sorted_files fvs t where
    so: "sorted_alphanumeric (listdir ?src) = Inr sorted_files"
    and m: "map (file_fv tiny_sklearn ?src tiny_config MBH) sorted_files = map Inr fvs"
    and fw: "files w' = files world0 @ written tiny_config t"
    and cols: "columns (table t MBH) = ''name'' # map str_nat [0..<length (hd fvs)]"
    and n: "length (rows (table t MBH)) = length (listdir ?src)"
    and cells: "(\<forall>fv\<in>set fvs. length fv = length (hd fvs)) \<longrightarrow>
               rows (table t MBH)
                 = map2 (\<lambda>file fv. Name (name_of file) # map Num fv) sorted_files fvs"
    by blast
  have "sorted_alphanumeric (listdir ?src) = Inr [''a.avi'', ''b.avi'']" by code_simp
  then have sf: "sorted_files = [''a.avi'', ''b.avi'']" using so by simp
  have "file_fv tiny_sklearn ?src tiny_config MBH ''a.avi'' = Inr [0, 5, - 24, 0, 7, - 48]"
    "file_fv tiny_sklearn ?src tiny_config MBH ''b.avi'' = Inr [0, 5, - 24, 0, 7, - 48]"
    by code_simp+
  then have fvs: "fvs = [[0, 5, - 24, 0, 7, - 48], [0, 5, - 24, 0, 7, - 48]]"
    using m unfolding sf by auto
  have c: "columns (mbh_df t) = [''name'', ''0'', ''1'', ''2'', ''3'', ''4'', ''5'']"
    using cols by (simp add: fvs upt_rec str_nat.simps)
  have nm: "name_of ''a.avi'' = ''a''" "name_of ''b.avi'' = ''b''" by code_simp+
  have l: "rows (mbh_df t)
            = [[Name ''a'', Num 0, Num 5, Num (- 24), Num 0, Num 7, Num (- 48)],
               [Name ''b'', Num 0, Num 5, Num (- 24), Num 0, Num 7, Num (- 48)]]"
    using cells by (simp add: fvs sf nm)
  have f: "files w' = [(''features/hog_features.csv'', Csv (hog_df t)),
                            (''features/hof_features.csv'', Csv (hof_df t)),
                            (''features/mbh_features.csv'', Csv (mbh_df t))]"
    using fw by (simp add: written_def tiny_config_def world0_def)
  have "w' = \<lparr> printed = [Separator, Running ''a.avi'' [1, 1, 1], Completed ''a.avi'',
                              Separator, Running ''b.avi'' [1, 1, 1], Completed ''b.avi''],
                   files = [(''features/hog_features.csv'', Csv (hog_df t)),
                            (''features/hof_features.csv'', Csv (hof_df t)),
                            (''features/mbh_features.csv'', Csv (mbh_df t))] \<rparr>"
    using pr f by (cases w') simp
  then have "main tiny_sklearn ?src tiny_config world0
          = Inr \<lparr> printed = [Separator, Running ''a.avi'' [1, 1, 1], Completed ''a.avi'',
                              Separator, Running ''b.avi'' [1, 1, 1], Completed ''b.avi''],
                   files = [(''features/hog_features.csv'', Csv (hog_df t)),
                            (''features/hof_features.csv'', Csv (hof_df t)),
                            (''features/mbh_features.csv'', Csv (mbh_df t))] \<rparr>"
    using h1 by simp
  then show ?thesis using c l by (intro exI[of _ t]) simp
qed

section \<open>The order of the rows\<close>

text \<open>
  Claim C4, as the program behaves. The loop visits the files in the natural order of
  their file names as listed, extension included: the sorted listing is a permutation
  of the listing in which no later key is smaller than an earlier one, where keys are
  compared as Python compares the lists of lower-cased text and numbers. In a run that
  completes, the rows of each enabled channel's table stand in that order, whatever
  the order of the listing. The witness is the listing \<open>clip10.avi\<close>, \<open>clip2.avi\<close>,
  whose rows are \<open>clip2\<close>, \<open>clip10\<close>.
\<close>

theorem rows_follow_file_name_order:
  assumes "main sk src cfg w = Inr w'" and "listdir src \<noteq> []" and "enabled cfg c"
  shows "\<exists>sorted_files keys w1 t.
           sorted_alphanumeric (listdir src) = Inr sorted_files
         \<and> mset sorted_files = mset (listdir src)
         \<and> map_err alphanum_key sorted_files = Inr keys
         \<and> sorted_wrt (\<lambda>a b. key_lt b a = Inr False) keys
         \<and> corpus_loop sk src cfg (enumerate 0 sorted_files) (w, new_tables) = Inr (w1, t)
         \<and> files w' = files w @ written cfg t
         \<and> map hd (rows (table t c)) = map (\<lambda>file. Name (name_of file)) sorted_files"
proof -
  from main_files[OF assms] obtain sorted_files w1 t where
    so: "sorted_alphanumeric (listdir src) = Inr sorted_files"
    and ne: "sorted_files \<noteq> []"
    and lp: "corpus_loop sk src cfg (enumerate 0 sorted_files) (w, new_tables) = Inr (w1, t)"
    and fw: "files w' = files w @ written cfg t"
    and tb: "\<forall>c. enabled cfg c \<longrightarrow>
               (\<exists>fvs. map (file_fv sk src cfg c) sorted_files = map Inr fvs
                  \<and> table t c = add_rows (zip sorted_files fvs) new_frame)"
    by blast
  from tb assms(3) obtain fvs where
    m: "map (file_fv sk src cfg c) sorted_files = map Inr fvs"
    and t: "table t c = add_rows (zip sorted_files fvs) new_frame" by blast
  have len: "length fvs = length sorted_files" using m by (metis length_map)
  then have z: "zip sorted_files fvs \<noteq> []" using ne by (cases sorted_files; cases fvs) auto
  have "map (\<lambda>(file, fv). Name (name_of file)) (zip sorted_files fvs)
          = map (\<lambda>file. Name (name_of file)) (map fst (zip sorted_files fvs))"
    by (simp add: case_prod_unfold comp_def)
  also have "\<dots> = map (\<lambda>file. Name (name_of file)) sorted_files"
    using len by simp
  finally have names: "map hd (rows (table t c)) = map (\<lambda>file. Name (name_of file)) sorted_files"
    unfolding t using add_rows_new_frame(2)[OF z] by simp
  from sorted_alphanumeric_Inr(2)[OF so] obtain keys where
    k: "map_err alphanum_key sorted_files = Inr keys"
    and st: "sorted_wrt (\<lambda>a b. key_lt b a = Inr False) keys" by blast
  show ?thesis
    using so sorted_alphanumeric_Inr(1)[OF so] k st lp fw names by blast
qed

theorem rows_follow_file_name_order_witness:
  "\<exists>t. files (projr (main tiny_sklearn (sample_source [''clip10.avi'', ''clip2.avi''] [])
                       tiny_config world0))
          = written tiny_config t
      \<and> map hd (rows (table t HOG)) = [Name ''clip2'', Name ''clip10'']"
proof -
  let ?src = "sample_source [''clip10.avi'', ''clip2.avi''] []"
  define w' where "w' = projr (main tiny_sklearn ?src tiny_config world0)"
  have "\<not> isl (main tiny_sklearn ?src tiny_config world0)" by code_simp
  then have h1: "main tiny_sklearn ?src tiny_config world0 = Inr w'"
    unfolding w'_def by simp
  have h2: "listdir ?src \<noteq> []" by (simp add: sample_source_def)
  have h3: "enabled tiny_config HOG" by (simp add: tiny_config_def)
  from rows_follow_file_name_order[OF h1 h2 h3] obtain sorted_files t where
    so: "sorted_alphanumeric (listdir ?src) = Inr sorted_files"
    and fw: "files w' = files world0 @ written tiny_config t"
    and names: "map hd (rows (table t HOG)) = map (\<lambda>file. Name (name_of file)) sorted_files"
    by blast
  have "sorted_alphanumeric (listdir ?src) = Inr [''clip2.avi'', ''clip10.avi'']" by code_simp
  then have sf: "sorted_files = [''clip2.avi'', ''clip10.avi'']" using so by simp
  have "name_of ''clip2.avi'' = ''clip2''" "name_of ''clip10.avi'' = ''clip10''" by code_simp+
  then have "map hd (rows (table t HOG)) = [Name ''clip2'', Name ''clip10'']"
    using names by (simp add: sf)
  moreover have "files w' = written tiny_config t" using fw by (simp add: world0_def)
  ultimately show ?thesis unfolding w'_def by (intro exI[of _ t]) simp
qed

text \<open>
  Claim C4 as stated, for the order of the video identifiers (the names in the table),
  fails: the files \<open>video.mp4\<close> and \<open>video2.mp4\<close> give the rows \<open>video2\<close>, \<open>video\<close>,
  although by the same comparison the identifier \<open>video\<close> is smaller than \<open>video2\<close>.
  The extension takes part in the comparison: \<open>video\<close> is smaller than \<open>video.mp\<close>.
\<close>

theorem identifier_order_counterexample:
  "map_sum fst (row_names ''features/hog_features.csv'')
     (main tiny_sklearn (sample_source [''video.mp4'', ''video2.mp4''] []) tiny_config world0)
     = Inr [Name ''video2'', Name ''video'']
   \<and> name_of ''video.mp4'' = ''video'' \<and> name_of ''video2.mp4'' = ''video2''
   \<and> alphanum_key ''video'' = Inr [KStr ''video'']
   \<and> alphanum_key ''video2'' = Inr [KStr ''video'', KInt 2, KStr []]
   \<and> key_lt [KStr ''video''] [KStr ''video'', KInt 2, KStr []] = Inr True"
  by code_simp

end
